theory Spec2Isabelle
  imports Complex_Main
begin

section \<open>Numbers, strings and the random source\<close>

text \<open>
  The program is \<^verbatim>\<open>src/App.js\<close>. JavaScript numbers are modelled as the real numbers they
  approximate, without the rounding of IEEE doubles; the one place where the rounding decides a
  property, the integer sampling of the text colours, is modelled a second time in binary64
  (\<open>rand64\<close>, \<open>randInt64\<close> and the functions built on them). A division by a computed
  divisor returns \<open>None\<close> where the divisor is zero, which is where JavaScript produces
  \<open>Infinity\<close> or \<open>NaN\<close> from finite operands. A string is the list of its UTF-16 code units, which is what
  \<^verbatim>\<open>split("")\<close>, \<^verbatim>\<open>length\<close> and \<^verbatim>\<open>trim\<close> work on.
\<close>

type_synonym js_string = "nat list"

text \<open>The ambient \<^verbatim>\<open>Math.random()\<close>: the \<open>k\<close>-th call of a run returns \<open>rnd k\<close>. Every
  sampling function takes the index of its first draw and returns the index after its last.\<close>

type_synonym rng = "nat \<Rightarrow> real"

definition unit_draws :: "rng \<Rightarrow> bool" where
  "unit_draws rnd \<longleftrightarrow> (\<forall>k. 0 \<le> rnd k \<and> rnd k < 1)"

definition js_div :: "real \<Rightarrow> real \<Rightarrow> real option" where
  "js_div a b = (if b = 0 then None else Some (a / b))"

definition js_trunc :: "real \<Rightarrow> int" where
  "js_trunc x = (if 0 \<le> x then \<lfloor>x\<rfloor> else \<lceil>x\<rceil>)"

text \<open>The operator \<^verbatim>\<open>%\<close>: the remainder takes the sign of the dividend.\<close>

definition js_rem :: "real \<Rightarrow> real \<Rightarrow> real" where
  "js_rem a b = a - b * of_int (js_trunc (a / b))"

text \<open>\<^verbatim>\<open>Math.round\<close> rounds half up.\<close>

definition js_round :: "real \<Rightarrow> int" where
  "js_round x = \<lfloor>x + 1 / 2\<rfloor>"

text \<open>\<^verbatim>\<open>rand(min, max)\<close> and \<^verbatim>\<open>randInt(min, max)\<close>, with the draw \<open>u\<close> of
  \<^verbatim>\<open>Math.random()\<close> made a parameter, in exact arithmetic.\<close>

definition rand :: "real \<Rightarrow> real \<Rightarrow> real \<Rightarrow> real" where
  "rand u lo hi = u * (hi - lo) + lo"

definition randInt :: "real \<Rightarrow> int \<Rightarrow> int \<Rightarrow> int" where
  "randInt u lo hi = \<lfloor>rand u (of_int lo) (of_int (hi + 1))\<rfloor>"

section \<open>Colours\<close>

record hsl_color =
  hue :: real
  saturation :: real
  lightness :: real

text \<open>\<^verbatim>\<open>pickBgColors\<close>: six draws, in the order of the source.\<close>

definition pickBgColors :: "rng \<Rightarrow> nat \<Rightarrow> (hsl_color \<times> hsl_color) \<times> nat" where
  "pickBgColors rnd k =
    (let h1 = randInt (rnd k) 0 360;
         h2 = js_rem (of_int (h1 + randInt (rnd (k + 1)) 20 140)) 360;
         s1 = randInt (rnd (k + 2)) 55 95;
         s2 = randInt (rnd (k + 3)) 55 95;
         l1 = randInt (rnd (k + 4)) 25 60;
         l2 = randInt (rnd (k + 5)) 25 60
     in ((\<lparr>hue = of_int h1, saturation = of_int s1, lightness = of_int l1\<rparr>,
          \<lparr>hue = h2, saturation = of_int s2, lightness = of_int l2\<rparr>), k + 6))"

text \<open>The two loops of \<^verbatim>\<open>pickTextColorsForBg\<close>: three draws for each colour.\<close>

fun darkStops :: "real \<Rightarrow> rng \<Rightarrow> nat \<Rightarrow> nat \<Rightarrow> hsl_color list" where
  "darkStops baseHue rnd k 0 = []"
| "darkStops baseHue rnd k (Suc n) =
    (let hh = js_rem (baseHue + of_int (randInt (rnd k) (- 60) 60) + 360) 360;
         ss = randInt (rnd (k + 1)) 40 85;
         ll = randInt (rnd (k + 2)) 8 35
     in \<lparr>hue = hh, saturation = of_int ss, lightness = of_int ll\<rparr>
        # darkStops baseHue rnd (k + 3) n)"

fun lightStops :: "real \<Rightarrow> rng \<Rightarrow> nat \<Rightarrow> nat \<Rightarrow> hsl_color list" where
  "lightStops baseHue rnd k 0 = []"
| "lightStops baseHue rnd k (Suc n) =
    (let hh = js_rem (baseHue + of_int (randInt (rnd k) (- 60) 60) + 360) 360;
         ss = randInt (rnd (k + 1)) 45 95;
         ll = randInt (rnd (k + 2)) 68 98
     in \<lparr>hue = hh, saturation = of_int ss, lightness = of_int ll\<rparr>
        # lightStops baseHue rnd (k + 3) n)"

definition avgLightness :: "hsl_color \<times> hsl_color \<Rightarrow> real" where
  "avgLightness bgColors = (lightness (fst bgColors) + lightness (snd bgColors)) / 2"

definition pickTextColorsForBg ::
  "hsl_color \<times> hsl_color \<Rightarrow> nat \<Rightarrow> rng \<Rightarrow> nat \<Rightarrow> hsl_color list \<times> nat" where
  "pickTextColorsForBg bgColors n rnd k =
    (let avgL = avgLightness bgColors;
         baseHue = (hue (fst bgColors) + hue (snd bgColors)) / 2
     in if avgL > 55 then (darkStops baseHue rnd k n, k + 3 * n)
        else (lightStops baseHue rnd k n, k + 3 * n))"

section \<open>Binary64\<close>

text \<open>
  The value of a JavaScript operation on doubles is the exact result rounded to the nearest
  double, ties to the even significand. \<open>fl64\<close> is that rounding on the reals: the doubles of the
  binade of \<open>x\<close> are the multiples of \<open>ulp64 x\<close>, down to the spacing \<open>2 ^ - 1074\<close> of the subnormal
  numbers. Overflow to \<open>Infinity\<close> is left out: every number of the program is far below
  \<open>2 ^ 1024\<close>.
\<close>

definition round_half_even :: "real \<Rightarrow> int" where
  "round_half_even x =
     (let n = \<lfloor>x\<rfloor>; r = x - of_int n
      in if r < 1 / 2 then n else if 1 / 2 < r then n + 1 else if even n then n else n + 1)"

definition pow2 :: "int \<Rightarrow> real" where
  "pow2 k = (if 0 \<le> k then 2 ^ nat k else 1 / 2 ^ nat (- k))"

definition binade :: "real \<Rightarrow> int" where
  "binade x = \<lfloor>log 2 \<bar>x\<bar>\<rfloor>"

definition ulp64 :: "real \<Rightarrow> real" where
  "ulp64 x = pow2 (max (binade x) (- 1022) - 52)"

definition fl64 :: "real \<Rightarrow> real" where
  "fl64 x = (if x = 0 then 0 else of_int (round_half_even (x / ulp64 x)) * ulp64 x)"

text \<open>\<^verbatim>\<open>rand\<close> and \<^verbatim>\<open>randInt\<close> (lines 29 and 30) with every operation rounded: the
  difference \<^verbatim>\<open>max - min\<close>, the product, the sum, and \<^verbatim>\<open>max + 1\<close>. The draw \<open>u\<close> is taken to be a
  double.\<close>

definition rand64 :: "real \<Rightarrow> real \<Rightarrow> real \<Rightarrow> real" where
  "rand64 u lo hi = fl64 (fl64 (u * fl64 (hi - lo)) + lo)"

definition randInt64 :: "real \<Rightarrow> int \<Rightarrow> int \<Rightarrow> int" where
  "randInt64 u lo hi = \<lfloor>rand64 u (of_int lo) (fl64 (of_int hi + 1))\<rfloor>"

text \<open>\<^verbatim>\<open>pickTextColorsForBg\<close> (lines 48 to 70) over these; \<^verbatim>\<open>%\<close> is exact on doubles.\<close>

fun darkStops64 :: "real \<Rightarrow> rng \<Rightarrow> nat \<Rightarrow> nat \<Rightarrow> hsl_color list" where
  "darkStops64 baseHue rnd k 0 = []"
| "darkStops64 baseHue rnd k (Suc n) =
    (let hh = js_rem (fl64 (fl64 (baseHue + of_int (randInt64 (rnd k) (- 60) 60)) + 360)) 360;
         ss = randInt64 (rnd (k + 1)) 40 85;
         ll = randInt64 (rnd (k + 2)) 8 35
     in \<lparr>hue = hh, saturation = of_int ss, lightness = of_int ll\<rparr>
        # darkStops64 baseHue rnd (k + 3) n)"

fun lightStops64 :: "real \<Rightarrow> rng \<Rightarrow> nat \<Rightarrow> nat \<Rightarrow> hsl_color list" where
  "lightStops64 baseHue rnd k 0 = []"
| "lightStops64 baseHue rnd k (Suc n) =
    (let hh = js_rem (fl64 (fl64 (baseHue + of_int (randInt64 (rnd k) (- 60) 60)) + 360)) 360;
         ss = randInt64 (rnd (k + 1)) 45 95;
         ll = randInt64 (rnd (k + 2)) 68 98
     in \<lparr>hue = hh, saturation = of_int ss, lightness = of_int ll\<rparr>
        # lightStops64 baseHue rnd (k + 3) n)"

definition pickTextColorsForBg64 ::
  "hsl_color \<times> hsl_color \<Rightarrow> nat \<Rightarrow> rng \<Rightarrow> nat \<Rightarrow> hsl_color list \<times> nat" where
  "pickTextColorsForBg64 bgColors n rnd k =
    (let avgL = fl64 (fl64 (lightness (fst bgColors) + lightness (snd bgColors)) / 2);
         baseHue = fl64 (fl64 (hue (fst bgColors) + hue (snd bgColors)) / 2)
     in if avgL > 55 then (darkStops64 baseHue rnd k n, k + 3 * n)
        else (lightStops64 baseHue rnd k n, k + 3 * n))"

section \<open>Strings\<close>

text \<open>The code units that \<^verbatim>\<open>String.prototype.trim\<close> removes: white space and line
  terminators of ECMAScript.\<close>

definition is_js_space :: "nat \<Rightarrow> bool" where
  "is_js_space c \<longleftrightarrow>
     c \<in> {9, 10, 11, 12, 13, 32, 160, 5760, 8232, 8233, 8239, 8287, 12288, 65279}
     \<or> (8192 \<le> c \<and> c \<le> 8202)"

definition trim :: "js_string \<Rightarrow> js_string" where
  "trim t = rev (dropWhile is_js_space (rev (dropWhile is_js_space t)))"

text \<open>\<^verbatim>\<open>split(" ")\<close>: the pieces between single spaces (code unit 32), empty pieces kept.\<close>

fun split_sp :: "js_string \<Rightarrow> js_string list" where
  "split_sp [] = [[]]"
| "split_sp (c # cs) =
    (if c = 32 then [] # split_sp cs
     else (case split_sp cs of [] \<Rightarrow> [[c]] | w # ws \<Rightarrow> (c # w) # ws))"

section \<open>The rendering surface\<close>

datatype font_family =
  Poppins | Montserrat | ArialBlack | Impact | ComicSansMS | Georgia | CourierNew | Verdana

definition fonts :: "font_family list" where
  "fonts = [Poppins, Montserrat, ArialBlack, Impact, ComicSansMS, Georgia, CourierNew, Verdana]"

text \<open>An array read: \<^verbatim>\<open>undefined\<close> (here \<open>None\<close>) outside the array.\<close>

definition fontAt :: "int \<Rightarrow> font_family option" where
  "fontAt i = (if 0 \<le> i \<and> i < int (length fonts) then Some (fonts ! nat i) else None)"

text \<open>A CSS colour \<^verbatim>\<open>rgba(r,g,b,a)\<close>, by its components.\<close>

record rgba =
  red :: nat
  green :: nat
  blue :: nat
  alpha :: real

text \<open>
  What the program does not decide: the width \<^verbatim>\<open>ctx.measureText(t).width\<close> of a string under
  the font set on the context (family and pixel size), and whether the call of
  \<^verbatim>\<open>ctx.strokeText\<close> made in iteration \<open>i\<close> of a drawing loop throws.
\<close>

record surface =
  measureText :: "font_family option \<Rightarrow> int \<Rightarrow> js_string \<Rightarrow> real"
  strokeThrows :: "nat \<Rightarrow> bool"

text \<open>The context properties that \<^verbatim>\<open>generateImage\<close> assigns before it lays the text out.\<close>

record text_style =
  textGrad :: "(real \<times> hsl_color) list"
  fontFamily :: "font_family option"
  fontSize :: int
  shadowColor :: rgba
  shadowBlur :: int
  strokeStyle :: rgba

text \<open>The canvas is the sequence of calls made on its context since it was last resized.\<close>

datatype draw_op =
    FillRect hsl_color hsl_color
  | SetStyle text_style
  | Save
  | Restore
  | Translate real real
  | Rotate real
  | FillText js_string real real
  | LineWidth real
  | StrokeText js_string real real

text \<open>
  \<open>NonFinite\<close>: a division by zero. JavaScript goes on with \<open>Infinity\<close> or \<open>NaN\<close>; the model
  stops there. \<open>StrokeThrew\<close>: an exception of \<^verbatim>\<open>strokeText\<close> that nothing caught, with the
  calls the canvas had received.
\<close>

datatype render_error = NonFinite | StrokeThrew "draw_op list"

section \<open>Arc layout\<close>

record glyph_placement =
  character :: nat
  angleRadians :: real
  radiusPx :: real

text \<open>
  The arithmetic of the per-character loop (the same in \<^verbatim>\<open>drawTextOnArc\<close> and in
  \<^verbatim>\<open>generateImage\<close>): \<open>cur\<close> is the cursor \<^verbatim>\<open>curr\<close>, and the result carries the cursor after the last
  character. The painting of the loop body is \<open>paintGlyphs\<close> and \<open>paintGlyphsGuarded\<close> below;
  it uses the angle and the radius and changes neither.
\<close>

fun arcWalk ::
  "real \<Rightarrow> real \<Rightarrow> real \<Rightarrow> (nat \<times> real) list \<Rightarrow> (glyph_placement list \<times> real) option" where
  "arcWalk radiusComputed startAngle cur [] = Some ([], cur)"
| "arcWalk radiusComputed startAngle cur ((ch, w) # rest) =
    (case js_div w radiusComputed of
       None \<Rightarrow> None
     | Some charAngle \<Rightarrow>
         (case arcWalk radiusComputed startAngle (cur + charAngle) rest of
            None \<Rightarrow> None
          | Some (ps, cursor) \<Rightarrow>
              Some (\<lparr>character = ch,
                     angleRadians = startAngle + cur + charAngle / 2,
                     radiusPx = radiusComputed\<rparr> # ps, cursor)))"

definition adjWidths :: "(js_string \<Rightarrow> real) \<Rightarrow> real \<Rightarrow> js_string \<Rightarrow> real list" where
  "adjWidths mw spacingFactor text =
     map (\<lambda>w. w * spacingFactor) (map (\<lambda>ch. mw [ch]) text)"

definition sumWidth :: "(js_string \<Rightarrow> real) \<Rightarrow> real \<Rightarrow> js_string \<Rightarrow> real" where
  "sumWidth mw spacingFactor text = foldl (+) 0 (adjWidths mw spacingFactor text)"

definition desiredArcClamped :: "real \<Rightarrow> real" where
  "desiredArcClamped desiredArc = max (min desiredArc (pi * 1.5)) (pi * 0.3)"

record arc_layout =
  arcRadius :: real
  placements :: "glyph_placement list"
  arcCursor :: real

text \<open>The layout computed inside \<^verbatim>\<open>generateImage\<close> (lines 220 to 245 of the source).\<close>

definition arcLayout ::
  "(js_string \<Rightarrow> real) \<Rightarrow> js_string \<Rightarrow> real \<Rightarrow> real \<Rightarrow> real \<Rightarrow> arc_layout option" where
  "arcLayout mw text spacingFactor desiredArc fontSizePx =
    (case js_div (sumWidth mw spacingFactor text) (desiredArcClamped desiredArc) of
       None \<Rightarrow> None
     | Some q \<Rightarrow>
         (let radiusComputed = max q (fontSizePx * 1.1);
              startAngle = - desiredArcClamped desiredArc / 2
          in case arcWalk radiusComputed startAngle 0
                    (zip text (adjWidths mw spacingFactor text)) of
               None \<Rightarrow> None
             | Some (ps, cursor) \<Rightarrow>
                 Some \<lparr>arcRadius = radiusComputed, placements = ps, arcCursor = cursor\<rparr>))"

text \<open>
  The layout of \<^verbatim>\<open>drawTextOnArc\<close> (lines 78 to 122): \<open>SingleRun\<close> is the early return of the
  fallback, which draws the whole string once.
\<close>

datatype arc_run = SingleRun | OnArc arc_layout

definition drawTextOnArcLayout ::
  "(js_string \<Rightarrow> real) \<Rightarrow> js_string \<Rightarrow> real \<Rightarrow> real \<Rightarrow> arc_run option" where
  "drawTextOnArcLayout mw text desiredArc spacingFactor =
    (if sumWidth mw spacingFactor text \<le> 0 then Some SingleRun
     else
       (case js_div (sumWidth mw spacingFactor text) desiredArc of
          None \<Rightarrow> None
        | Some radiusComputed \<Rightarrow>
            (case arcWalk radiusComputed (- desiredArc / 2) 0
                    (zip text (adjWidths mw spacingFactor text)) of
               None \<Rightarrow> None
             | Some (ps, cursor) \<Rightarrow>
                 Some (OnArc \<lparr>arcRadius = radiusComputed, placements = ps,
                              arcCursor = cursor\<rparr>))))"

section \<open>Painting the glyphs\<close>

text \<open>The loop body of \<^verbatim>\<open>drawTextOnArc\<close> (lines 106 to 119): the stroke sits in a
  \<^verbatim>\<open>try\<close>, so an exception skips the stroke and the loop goes on.\<close>

fun paintGlyphsGuarded :: "(nat \<Rightarrow> bool) \<Rightarrow> real \<Rightarrow> nat \<Rightarrow> glyph_placement list \<Rightarrow> draw_op list" where
  "paintGlyphsGuarded throws lw i [] = []"
| "paintGlyphsGuarded throws lw i (p # ps) =
     [Save, Rotate (angleRadians p), Translate 0 (- radiusPx p),
      FillText [character p] 0 0, LineWidth lw]
     @ (if throws i then [] else [StrokeText [character p] 0 0])
     @ [Restore]
     @ paintGlyphsGuarded throws lw (Suc i) ps"

text \<open>\<^verbatim>\<open>Math.max(1, ctx.fontSize * 0.06 || 2)\<close>, where \<^verbatim>\<open>ctx.fontSize\<close> may be undefined.\<close>

definition guardedLineWidth :: "real option \<Rightarrow> real" where
  "guardedLineWidth ctxFontSize =
     max 1 (case ctxFontSize of
              None \<Rightarrow> 2
            | Some f \<Rightarrow> if f * 0.06 = 0 then 2 else f * 0.06)"

text \<open>\<^verbatim>\<open>drawTextOnArc\<close>: the calls it makes on the context; \<open>None\<close> where a number is not
  finite. Its parameter \<^verbatim>\<open>radius\<close> is not used by the source.\<close>

definition drawTextOnArc ::
  "(js_string \<Rightarrow> real) \<Rightarrow> (nat \<Rightarrow> bool) \<Rightarrow> real option \<Rightarrow> js_string \<Rightarrow> real \<Rightarrow> real \<Rightarrow> real \<Rightarrow> real
     \<Rightarrow> draw_op list option" where
  "drawTextOnArc mw throws ctxFontSize text cx cy desiredArc spacingFactor =
    (case drawTextOnArcLayout mw text desiredArc spacingFactor of
       None \<Rightarrow> None
     | Some SingleRun \<Rightarrow> Some [FillText text cx cy]
     | Some (OnArc L) \<Rightarrow>
         Some ([Save, Translate cx cy]
               @ paintGlyphsGuarded throws (guardedLineWidth ctxFontSize) 0 (placements L)
               @ [Restore]))"

text \<open>The loop body inside \<^verbatim>\<open>generateImage\<close> (lines 236 to 242): no \<^verbatim>\<open>try\<close>, so an
  exception of the stroke leaves the loop.\<close>

fun paintGlyphs ::
  "(nat \<Rightarrow> bool) \<Rightarrow> real \<Rightarrow> nat \<Rightarrow> glyph_placement list \<Rightarrow> draw_op list \<Rightarrow> render_error + draw_op list" where
  "paintGlyphs throws lw i [] ops = Inr ops"
| "paintGlyphs throws lw i (p # ps) ops =
    (let ops1 = ops @ [Save, Rotate (angleRadians p), Translate 0 (- radiusPx p),
                       FillText [character p] 0 0, LineWidth lw]
     in if throws i then Inl (StrokeThrew ops1)
        else paintGlyphs throws lw (Suc i) ps (ops1 @ [StrokeText [character p] 0 0, Restore]))"

section \<open>Straight layout\<close>

text \<open>The wrapping loop (lines 260 to 271). An empty string is falsy.\<close>

definition testLine :: "js_string \<Rightarrow> js_string \<Rightarrow> js_string" where
  "testLine currentLine word = (if currentLine \<noteq> [] then currentLine @ [32] @ word else word)"

fun wrapLoop ::
  "(js_string \<Rightarrow> real) \<Rightarrow> real \<Rightarrow> js_string list \<Rightarrow> js_string \<Rightarrow> js_string list
     \<Rightarrow> js_string list \<times> js_string" where
  "wrapLoop mw maxWidth [] currentLine lines = (lines, currentLine)"
| "wrapLoop mw maxWidth (word # words) currentLine lines =
    (if mw (testLine currentLine word) > maxWidth \<and> currentLine \<noteq> []
     then wrapLoop mw maxWidth words word (lines @ [currentLine])
     else wrapLoop mw maxWidth words (testLine currentLine word) lines)"

definition wrapLines :: "(js_string \<Rightarrow> real) \<Rightarrow> real \<Rightarrow> js_string \<Rightarrow> js_string list" where
  "wrapLines mw maxWidth text =
    (case wrapLoop mw maxWidth (split_sp text) [] [] of
       (lines, currentLine) \<Rightarrow> if currentLine \<noteq> [] then lines @ [currentLine] else lines)"

text \<open>The loop over the lines (lines 275 to 279), each line with its offset
  \<^verbatim>\<open>startY + i * lineHeight\<close>: fill, then stroke, no \<^verbatim>\<open>try\<close>.\<close>

fun paintLines ::
  "(nat \<Rightarrow> bool) \<Rightarrow> real \<Rightarrow> nat \<Rightarrow> (js_string \<times> real) list \<Rightarrow> draw_op list
     \<Rightarrow> render_error + draw_op list" where
  "paintLines throws lw i [] ops = Inr ops"
| "paintLines throws lw i ((line, y) # rest) ops =
    (let ops1 = ops @ [FillText line 0 y, LineWidth lw]
     in if throws i then Inl (StrokeThrew ops1)
        else paintLines throws lw (Suc i) rest (ops1 @ [StrokeText line 0 y]))"

section \<open>One render\<close>

record render_params =
  bg :: "hsl_color \<times> hsl_color"
  textColorObjs :: "hsl_color list"
  style :: text_style
  useCurve :: bool
  rotateAngle :: real
  desiredArc :: real

text \<open>The gradient stops of the text: \<^verbatim>\<open>i / (textColorObjs.length - 1 || 1)\<close>.\<close>

definition gradStops :: "hsl_color list \<Rightarrow> (real \<times> hsl_color) list" where
  "gradStops cols =
     map (\<lambda>i. (real i / (if length cols - 1 = 0 then 1 else real (length cols - 1)), cols ! i))
       [0..<length cols]"

text \<open>Everything \<^verbatim>\<open>generateImage\<close> draws and derives before it branches on the layout
  (lines 154 to 196), with the index of the next draw.\<close>

definition sampleParams :: "rng \<Rightarrow> render_params \<times> nat" where
  "sampleParams rnd =
    (case pickBgColors rnd 0 of (bgc, k1) \<Rightarrow>
      (let stops = 2 + randInt (rnd k1) 0 1 in
       case pickTextColorsForBg bgc (nat stops) rnd (k1 + 1) of (cols, k2) \<Rightarrow>
        (let family = fontAt (randInt (rnd k2) 0 (int (length fonts) - 1));
             px = js_round (of_int (randInt (rnd (k2 + 1)) 70 140) * 1.2);
             avgBgL = avgLightness bgc;
             shadowIsLight = avgBgL < 55;
             shadow = (if shadowIsLight
                       then \<lparr>red = 255, green = 255, blue = 255, alpha = 0.25\<rparr>
                       else \<lparr>red = 0, green = 0, blue = 0, alpha = 0.35\<rparr>);
             blur = js_round (of_int px * 0.12);
             outline = (if avgBgL > 55
                        then \<lparr>red = 0, green = 0, blue = 0, alpha = 0.45\<rparr>
                        else \<lparr>red = 255, green = 255, blue = 255, alpha = 0.45\<rparr>);
             curve = (rnd (k2 + 2) > 0.35);
             rot = rand (rnd (k2 + 3)) (- 0.35) 0.35;
             arc = rand (rnd (k2 + 4)) (pi * 0.55) (pi * 0.95)
         in (\<lparr>bg = bgc, textColorObjs = cols,
              style = \<lparr>textGrad = gradStops cols, fontFamily = family, fontSize = px,
                       shadowColor = shadow, shadowBlur = blur, strokeStyle = outline\<rparr>,
              useCurve = curve, rotateAngle = rot, desiredArc = arc\<rparr>, k2 + 5))))"

text \<open>\<^verbatim>\<open>Math.max(1, Math.round(fontSize * 0.06))\<close>.\<close>

definition strokeWidth :: "int \<Rightarrow> real" where
  "strokeWidth px = max 1 (of_int (js_round (of_int px * 0.06)))"

text \<open>The spacing factor and the layout of the curved branch (lines 207 to 245); \<open>k\<close> is the
  index of the draw of the vertical jitter, the spacing factor takes the next one.\<close>

definition spacingFor :: "js_string \<Rightarrow> rng \<Rightarrow> nat \<Rightarrow> real" where
  "spacingFor text rnd k = (if length text > 20 then 1.14 else rand (rnd (k + 1)) 1.06 1.18)"

definition curveLayout :: "surface \<Rightarrow> rng \<Rightarrow> js_string \<Rightarrow> arc_layout option" where
  "curveLayout sf rnd text =
    (case sampleParams rnd of (P, k) \<Rightarrow>
       arcLayout (measureText sf (fontFamily (style P)) (fontSize (style P))) text
         (spacingFor text rnd k) (desiredArc P) (of_int (fontSize (style P))))"

text \<open>The wrapped lines of the straight branch (lines 257 to 274) with their vertical offsets.\<close>

definition straightLayout :: "surface \<Rightarrow> rng \<Rightarrow> js_string \<Rightarrow> (js_string \<times> real) list" where
  "straightLayout sf rnd text =
    (case sampleParams rnd of (P, k) \<Rightarrow>
      (let lines = wrapLines (measureText sf (fontFamily (style P)) (fontSize (style P)))
                     (1400 * 0.8) text;
           lineHeight = of_int (fontSize (style P)) * 1.12;
           startY = - ((of_int (int (length lines) - 1)) * lineHeight) / 2
       in map (\<lambda>i. (lines ! i, startY + real i * lineHeight)) [0..<length lines]))"

text \<open>The body of the \<^verbatim>\<open>try\<close> of the timer callback up to \<^verbatim>\<open>toDataURL\<close> (lines 145 to 282):
  the calls on the context of the freshly resized canvas, or the error that ends them.\<close>

definition renderImage :: "surface \<Rightarrow> rng \<Rightarrow> js_string \<Rightarrow> render_error + draw_op list" where
  "renderImage sf rnd text =
    (case sampleParams rnd of (P, k) \<Rightarrow>
      (let ops0 = [FillRect (fst (bg P)) (snd (bg P)), SetStyle (style P)];
           lw = strokeWidth (fontSize (style P))
       in if useCurve P then
            (let cx = 1400 / 2;
                 cy = 900 / 2 - rand (rnd k) (- 20) 40
             in case curveLayout sf rnd text of
                  None \<Rightarrow> Inl NonFinite
                | Some L \<Rightarrow>
                    (case paintGlyphs (strokeThrows sf) lw 0 (placements L)
                            (ops0 @ [Save, Translate cx cy, Rotate (rotateAngle P)]) of
                       Inl e \<Rightarrow> Inl e
                     | Inr ops \<Rightarrow> Inr (ops @ [Restore])))
          else
            (case paintLines (strokeThrows sf) lw 0 (straightLayout sf rnd text)
                    (ops0 @ [Save, Translate (1400 / 2) (900 / 2), Rotate (rotateAngle P)]) of
               Inl e \<Rightarrow> Inl e
             | Inr ops \<Rightarrow> Inr (ops @ [Restore]))))"

section \<open>The component state\<close>

text \<open>
  \<open>imageUrl\<close> is \<open>None\<close> for the empty string and otherwise the canvas content that the data URL
  encodes. \<open>timers\<close> holds the callbacks that \<^verbatim>\<open>setTimeout\<close> has scheduled, each with the prompt
  its closure captured.
\<close>

record app_state =
  prompt :: js_string
  imageUrl :: "draw_op list option"
  loading :: bool
  canvas :: "draw_op list"
  consoleErrors :: "render_error list"
  timers :: "js_string list"

text \<open>\<^verbatim>\<open>generateImage\<close> up to the call of \<^verbatim>\<open>setTimeout\<close> (lines 139 to 143).\<close>

definition generateImage :: "app_state \<Rightarrow> app_state" where
  "generateImage st =
    (if trim (prompt st) = [] then st
     else st\<lparr>loading := True, imageUrl := None, timers := timers st @ [prompt st]\<rparr>)"

text \<open>The timer callback (lines 144 to 291): \<open>None\<close> where the model stops at a number that is
  not finite.\<close>

definition timerCallback :: "surface \<Rightarrow> rng \<Rightarrow> js_string \<Rightarrow> app_state \<Rightarrow> app_state option" where
  "timerCallback sf rnd text st =
    (case renderImage sf rnd text of
       Inl NonFinite \<Rightarrow> None
     | Inl (StrokeThrew ops) \<Rightarrow>
         Some (st\<lparr>canvas := ops, consoleErrors := consoleErrors st @ [StrokeThrew ops],
                  loading := False\<rparr>)
     | Inr ops \<Rightarrow> Some (st\<lparr>canvas := ops, imageUrl := Some ops, loading := False\<rparr>))"

section \<open>Reading the canvas\<close>



section \<open>Sample surfaces\<close>

text \<open>A monospaced font for the worked examples: every code unit is \<open>w\<close> pixels wide.\<close>

definition fixedWidth :: "real \<Rightarrow> js_string \<Rightarrow> real" where
  "fixedWidth w t = w * real (length t)"

text \<open>A run in which every call of \<^verbatim>\<open>Math.random()\<close> returns one half, and a surface with that
  monospaced font on which no stroke throws.\<close>

definition halfDraws :: rng where
  "halfDraws k = 1 / 2"

definition plainSurface :: "real \<Rightarrow> surface" where
  "plainSurface w = \<lparr>measureText = (\<lambda>family px. fixedWidth w), strokeThrows = (\<lambda>i. False)\<rparr>"

text \<open>A run in which every draw is nine tenths; its background is light.\<close>

definition highDraws :: rng where
  "highDraws k = 9 / 10"

text \<open>A run that leaves one half after its 23rd draw, and a surface that measures as the
  monospaced one under Comic Sans MS only.\<close>

definition halfThenZero :: rng where
  "halfThenZero k = (if k < 23 then 1 / 2 else 0)"

definition comicOnly :: "real \<Rightarrow> surface" where
  "comicOnly w =
     \<lparr>measureText = (\<lambda>family px. if family = Some ComicSansMS then fixedWidth w
                                    else fixedWidth 0),
      strokeThrows = (\<lambda>i. False)\<rparr>"

text \<open>A run in which every draw is one quarter; it takes the straight branch.\<close>

definition quarterDraws :: rng where
  "quarterDraws k = 1 / 4"


text \<open>A run whose two background lightness draws give 50 and 60, so that the average is 55.\<close>

definition edgeDraws :: rng where
  "edgeDraws k = (if k = 4 then 7 / 10 else if k = 5 then 49 / 50 else 1 / 2)"

text \<open>A run in which every draw is the largest double below 1.\<close>

definition topDraws :: rng where
  "topDraws k = 1 - 1 / 2 ^ 53"

section \<open>Sampling stays in its range\<close>

text \<open>In exact arithmetic \<^verbatim>\<open>randInt(min, max)\<close> lies between its bounds; \<open>randInt64_overshoot\<close>
  below shows that the rounded sum can reach \<open>max + 1\<close>.\<close>

lemma randInt_bounds:
  assumes "0 \<le> u" "u < 1" "lo \<le> hi"
  shows "lo \<le> randInt u lo hi \<and> randInt u lo hi \<le> hi"
proof -
  let ?d = "real_of_int (hi + 1) - real_of_int lo"
  have d: "0 < ?d" using assms(3) by simp
  have "0 \<le> u * ?d" using assms(1) d by simp
  then have lower: "real_of_int lo \<le> rand u (of_int lo) (of_int (hi + 1))"
    by (simp add: rand_def)
  have "u * ?d < 1 * ?d" using assms(2) d by (rule mult_strict_right_mono)
  then have upper: "rand u (of_int lo) (of_int (hi + 1)) < real_of_int (hi + 1)"
    by (simp add: rand_def)
  from lower have "lo \<le> randInt u lo hi"
    unfolding randInt_def by (simp only: le_floor_iff)
  moreover from upper have "randInt u lo hi < hi + 1"
    unfolding randInt_def by (simp only: floor_less_iff)
  ultimately show ?thesis by simp
qed

section \<open>Rounding to binary64\<close>

lemma pow2_powr: "pow2 k = 2 powr of_int k"
proof (cases "0 \<le> k")
  case True
  then have "2 powr real_of_int k = 2 powr real (nat k)" by simp
  also have "\<dots> = 2 ^ nat k" by (simp add: powr_realpow)
  finally show ?thesis using True by (simp add: pow2_def)
next
  case False
  then have "2 powr real_of_int k = 2 powr (- real (nat (- k)))" by simp
  also have "\<dots> = 1 / 2 ^ nat (- k)" by (simp add: powr_minus powr_realpow divide_inverse)
  finally show ?thesis using False by (simp add: pow2_def)
qed

lemma binade_eq:
  assumes "pow2 e \<le> \<bar>x\<bar>" "\<bar>x\<bar> < pow2 (e + 1)"
  shows "binade x = e"
proof -
  have "0 < pow2 e" by (simp add: pow2_powr)
  with assms(1) have pos: "0 < \<bar>x\<bar>" by linarith
  have "2 powr real_of_int e \<le> \<bar>x\<bar> \<and> \<bar>x\<bar> < 2 powr real_of_int (e + 1)"
    using assms by (simp add: pow2_powr)
  with floor_log_eq_powr_iff [OF pos, of 2 e] show ?thesis by (simp add: binade_def)
qed

lemma fl64_eq:
  assumes "pow2 e \<le> \<bar>x\<bar>" "\<bar>x\<bar> < pow2 (e + 1)" "- 1022 \<le> e"
  shows "fl64 x = of_int (round_half_even (x / pow2 (e - 52))) * pow2 (e - 52)"
proof -
  have "0 < pow2 e" by (simp add: pow2_powr)
  with assms(1) have "x \<noteq> 0" by auto
  moreover have "ulp64 x = pow2 (e - 52)"
    using assms(3) by (simp add: ulp64_def binade_eq [OF assms(1,2)])
  ultimately show ?thesis by (simp add: fl64_def)
qed

lemma round_half_even_int: "round_half_even (of_int m) = m"
  by (simp add: round_half_even_def)

lemma fl64_int:
  assumes "\<bar>n\<bar> < 2 ^ 53"
  shows "fl64 (of_int n) = of_int n"
proof (cases "n = 0")
  case True
  then show ?thesis by (simp add: fl64_def)
next
  case False
  define e where "e = binade (of_int n)"
  have abs1: "1 \<le> \<bar>real_of_int n\<bar>" using False by (simp flip: of_int_abs)
  have "\<bar>real_of_int n\<bar> < 2 ^ 53" using assms by (simp flip: of_int_abs)
  then have absu: "\<bar>real_of_int n\<bar> < 2 powr 53" by simp
  have "0 \<le> log 2 \<bar>real_of_int n\<bar>" using abs1 by simp
  then have e0: "0 \<le> e" by (simp add: e_def binade_def)
  have "log 2 \<bar>real_of_int n\<bar> < 53" using abs1 absu by (simp add: log_less_iff)
  then have e52: "e \<le> 52" unfolding e_def binade_def by linarith
  have u: "ulp64 (of_int n) = 1 / 2 ^ nat (52 - e)"
  proof (cases "e = 52")
    case True
    then show ?thesis using e0 by (simp add: ulp64_def e_def [symmetric] pow2_def)
  next
    case False
    with e52 have "e - 52 < 0" by simp
    moreover have "max e (- 1022) = e" using e0 by simp
    ultimately show ?thesis by (simp add: ulp64_def e_def [symmetric] pow2_def)
  qed
  have "real_of_int n / ulp64 (of_int n) = of_int (n * 2 ^ nat (52 - e))" by (simp add: u)
  then have "round_half_even (real_of_int n / ulp64 (of_int n)) = n * 2 ^ nat (52 - e)"
    by (simp only: round_half_even_int)
  then show ?thesis using False by (simp add: fl64_def u)
qed

lemma fl64_numeral: "\<bar>numeral w :: int\<bar> < 2 ^ 53 \<Longrightarrow> fl64 (numeral w) = numeral w"
  using fl64_int [of "numeral w"] by simp

text \<open>The double nearest to one tenth, as a check of \<open>fl64\<close> against the known value.\<close>

lemma fl64_tenth: "fl64 (1 / 10) = 3602879701896397 / 2 ^ 55"
  by (subst fl64_eq [where e = "- 4"]) (simp_all add: pow2_def round_half_even_def Let_def)

text \<open>
  At the draw \<open>1 - 2 ^ - 53\<close> the product with 28 is rounded to \<open>28 - 2 ^ - 48\<close>; the sum with 8
  is half way between the doubles \<open>36 - 2 ^ - 47\<close> and 36, and the tie goes to 36.
\<close>

lemma fl64_top_times_28: "fl64 ((1 - 1 / 2 ^ 53) * 28) = 28 - 1 / 2 ^ 48"
  by (subst fl64_eq [where e = 4]) (simp_all add: pow2_def round_half_even_def Let_def)

lemma fl64_tie_at_36: "fl64 (28 - 1 / 2 ^ 48 + 8) = 36"
  by (subst fl64_eq [where e = 5]) (simp_all add: pow2_def round_half_even_def Let_def)

lemma randInt64_overshoot: "randInt64 (1 - 1 / 2 ^ 53) 8 35 = 36"
proof -
  define u :: real where "u = 1 - 1 / 2 ^ 53"
  define p :: real where "p = 28 - 1 / 2 ^ 48"
  have hi: "fl64 (real_of_int 35 + 1) = 36" by (simp add: fl64_numeral)
  have lo: "real_of_int 8 = 8" by simp
  have d: "fl64 (36 - 8) = 28" by (simp add: fl64_numeral)
  have m: "fl64 (u * 28) = p" unfolding u_def p_def by (rule fl64_top_times_28)
  have s: "fl64 (p + 8) = 36" unfolding p_def by (rule fl64_tie_at_36)
  have "randInt64 u 8 35 = \<lfloor>36 :: real\<rfloor>"
    by (simp only: randInt64_def rand64_def hi lo d m s)
  then show ?thesis unfolding u_def by simp
qed

section \<open>The cursor of the arc\<close>

lemma foldl_plus_sum_list: "foldl (+) a xs = a + sum_list (xs :: real list)"
  by (induction xs arbitrary: a) simp_all

lemma sumWidth_sum_list: "sumWidth mw sp t = sum_list (adjWidths mw sp t)"
  by (simp add: sumWidth_def foldl_plus_sum_list)

lemma length_adjWidths: "length (adjWidths mw sp t) = length t"
  by (simp add: adjWidths_def)

lemma arcWalk_Some:
  assumes "r \<noteq> 0"
  shows "\<exists>ps. arcWalk r start cur cws = Some (ps, cur + sum_list (map snd cws) / r)
           \<and> map character ps = map fst cws \<and> (\<forall>p\<in>set ps. radiusPx p = r)"
proof (induction cws arbitrary: cur)
  case Nil
  show ?case by simp
next
  case (Cons cw cws)
  obtain ch w where cw: "cw = (ch, w)" by (cases cw)
  from Cons [of "cur + w / r"] obtain ps where
    ps: "arcWalk r start (cur + w / r) cws = Some (ps, cur + w / r + sum_list (map snd cws) / r)"
      "map character ps = map fst cws" "\<forall>p\<in>set ps. radiusPx p = r"
    by blast
  show ?case
    using assms ps by (simp add: cw js_div_def add_divide_distrib)
qed

lemma arcWalk_sorted:
  assumes "0 < r" "\<forall>cw\<in>set cws. 0 \<le> snd cw" "arcWalk r start cur cws = Some (ps, c)"
  shows "sorted (map angleRadians ps) \<and> cur \<le> c
         \<and> (\<forall>p\<in>set ps. start + cur \<le> angleRadians p \<and> angleRadians p \<le> start + c)"
  using assms(2,3)
proof (induction cws arbitrary: cur ps)
  case Nil
  then show ?case by simp
next
  case (Cons cw cws)
  obtain ch w where cw: "cw = (ch, w)" by (cases cw)
  from Cons.prems(1) cw have w: "0 \<le> w" and rest: "\<forall>cw\<in>set cws. 0 \<le> snd cw" by simp_all
  from w assms(1) have q: "0 \<le> w / r" by simp
  from Cons.prems(2) assms(1) obtain qs where
    walk: "arcWalk r start (cur + w / r) cws = Some (qs, c)"
    and ps: "ps = \<lparr>character = ch, angleRadians = start + cur + w / r / 2, radiusPx = r\<rparr> # qs"
    by (auto simp: cw js_div_def split: option.splits)
  from Cons.IH [OF rest walk] have
    ih: "sorted (map angleRadians qs)" "cur + w / r \<le> c"
      "\<forall>p\<in>set qs. start + (cur + w / r) \<le> angleRadians p \<and> angleRadians p \<le> start + c"
    by simp_all
  have "\<forall>p\<in>set qs. start + cur + w / r / 2 \<le> angleRadians p"
  proof
    fix p assume "p \<in> set qs"
    with ih(3) have "start + (cur + w / r) \<le> angleRadians p" by blast
    with q show "start + cur + w / r / 2 \<le> angleRadians p" by simp
  qed
  moreover have "\<forall>p\<in>set qs. start + cur \<le> angleRadians p"
  proof
    fix p assume "p \<in> set qs"
    with ih(3) have "start + (cur + w / r) \<le> angleRadians p" by blast
    with q show "start + cur \<le> angleRadians p" by simp
  qed
  moreover have "start + cur + w / r / 2 \<le> start + c" using ih(2) q by simp
  moreover have "cur \<le> c" using ih(2) q by simp
  ultimately show ?case using ih q by (simp add: ps)
qed


lemma desiredArcClamped_bounds:
  "pi * 0.3 \<le> desiredArcClamped A \<and> desiredArcClamped A \<le> pi * 1.5"
proof -
  have "pi * 0.3 \<le> pi * 1.5" using pi_gt_zero by simp
  then show ?thesis unfolding desiredArcClamped_def by (auto simp: max_def min_def)
qed

lemma desiredArcClamped_pos: "0 < desiredArcClamped A"
proof -
  have "0 < pi * 0.3" using pi_gt_zero by simp
  with desiredArcClamped_bounds [of A] show ?thesis by linarith
qed

lemma desiredArcClamped_id:
  "pi * 0.3 \<le> A \<Longrightarrow> A \<le> pi * 1.5 \<Longrightarrow> desiredArcClamped A = A"
  by (simp add: desiredArcClamped_def)

lemma clamp_two: "desiredArcClamped 2 = 2"
proof -
  have "pi * 0.3 \<le> 2" "2 \<le> pi * 1.5" using pi_less_4 pi_ge_two by simp_all
  then show ?thesis by (rule desiredArcClamped_id)
qed


lemma adjWidths_nonneg:
  assumes "\<forall>ch. 0 \<le> mw [ch]" "0 \<le> sp"
  shows "\<forall>w\<in>set (adjWidths mw sp t). 0 \<le> w"
  using assms by (auto simp: adjWidths_def)


lemma sumWidth_nonneg:
  assumes "\<forall>ch. 0 \<le> mw [ch]" "0 \<le> sp"
  shows "0 \<le> sumWidth mw sp t"
  unfolding sumWidth_sum_list
  using adjWidths_nonneg [OF assms] by (intro sum_list_nonneg) blast

lemma arcLayout_Some:
  assumes "0 < fs" and "R = max (sumWidth mw sp t / desiredArcClamped A) (fs * 1.1)"
  shows "\<exists>ps. arcLayout mw t sp A fs
              = Some \<lparr>arcRadius = R, placements = ps, arcCursor = sumWidth mw sp t / R\<rparr>
           \<and> arcWalk R (- desiredArcClamped A / 2) 0 (zip t (adjWidths mw sp t))
              = Some (ps, sumWidth mw sp t / R)
           \<and> map character ps = t"
proof -
  have "fs * 1.1 \<le> R" by (simp add: assms(2))
  with assms(1) have R: "R \<noteq> 0" by auto
  have z: "map snd (zip t (adjWidths mw sp t)) = adjWidths mw sp t"
    "map fst (zip t (adjWidths mw sp t)) = t"
    by (simp_all add: length_adjWidths)
  from arcWalk_Some [OF R, of "- desiredArcClamped A / 2" 0 "zip t (adjWidths mw sp t)"]
  obtain ps where ps:
    "arcWalk R (- desiredArcClamped A / 2) 0 (zip t (adjWidths mw sp t))
       = Some (ps, sumWidth mw sp t / R)"
    "map character ps = t"
    by (auto simp: z sumWidth_sum_list)
  have "desiredArcClamped A \<noteq> 0" using desiredArcClamped_pos [of A] by simp
  then have "arcLayout mw t sp A fs
      = Some \<lparr>arcRadius = R, placements = ps, arcCursor = sumWidth mw sp t / R\<rparr>"
    using ps(1) by (simp add: arcLayout_def js_div_def assms(2) Let_def)
  with ps show ?thesis by blast
qed

lemma span_consumed_iff:
  fixes S Ac f :: real
  assumes "0 \<le> S" "0 < Ac" "0 < f"
  shows "S / max (S / Ac) f \<le> Ac \<and> (S / max (S / Ac) f = Ac \<longleftrightarrow> f \<le> S / Ac)"
proof (cases "f \<le> S / Ac")
  case True
  then have m: "max (S / Ac) f = S / Ac" by simp
  from True assms(3) have "0 < S / Ac" by linarith
  with assms(2) have "S \<noteq> 0" by auto
  with assms(2) have "S / (S / Ac) = Ac" by simp
  with True m show ?thesis by simp
next
  case False
  then have m: "max (S / Ac) f = f" by simp
  from False have "S / Ac < f" by simp
  with assms(2) have "S < f * Ac" by (simp add: pos_divide_less_eq)
  with assms(3) have "S / f < Ac" by (simp add: pos_divide_less_eq mult.commute)
  with False m show ?thesis by simp
qed


section \<open>What one run samples\<close>

lemma rand_bounds:
  assumes "0 \<le> u" "u < 1" "lo < hi"
  shows "lo \<le> rand u lo hi \<and> rand u lo hi < hi"
proof -
  have d: "0 < hi - lo" using assms(3) by simp
  have "0 \<le> u * (hi - lo)" using assms(1) d by simp
  moreover have "u * (hi - lo) < 1 * (hi - lo)" using assms(2) d by (rule mult_strict_right_mono)
  ultimately show ?thesis by (simp add: rand_def)
qed

lemma sampleParams_next:
  "snd (sampleParams rnd) = 12 + 3 * nat (2 + randInt (rnd 6) 0 1)"
  by (simp add: sampleParams_def pickBgColors_def pickTextColorsForBg_def Let_def)

lemma sampleParams_fontSize:
  "fontSize (style (fst (sampleParams rnd)))
     = js_round (of_int (randInt (rnd (8 + 3 * nat (2 + randInt (rnd 6) 0 1))) 70 140) * 1.2)"
  by (simp add: sampleParams_def pickBgColors_def pickTextColorsForBg_def Let_def add.commute)

lemma sampleParams_desiredArc:
  "desiredArc (fst (sampleParams rnd))
     = rand (rnd (11 + 3 * nat (2 + randInt (rnd 6) 0 1))) (pi * 0.55) (pi * 0.95)"
  by (simp add: sampleParams_def pickBgColors_def pickTextColorsForBg_def Let_def add.commute)

lemma fontSize_at_least:
  assumes "unit_draws rnd"
  shows "84 \<le> fontSize (style (fst (sampleParams rnd)))"
proof -
  let ?k = "8 + 3 * nat (2 + randInt (rnd 6) 0 1)"
  have u: "0 \<le> rnd ?k" "rnd ?k < 1" using assms by (simp_all add: unit_draws_def)
  from randInt_bounds [OF u, of 70 140] have "70 \<le> randInt (rnd ?k) 70 140" by simp
  then have "(70 :: real) \<le> of_int (randInt (rnd ?k) 70 140)" by linarith
  then have "of_int 84 \<le> real_of_int (randInt (rnd ?k) 70 140) * 1.2 + 1 / 2" by simp
  then have "84 \<le> js_round (of_int (randInt (rnd ?k) 70 140) * 1.2)"
    unfolding js_round_def by (simp only: le_floor_iff)
  then show ?thesis by (simp only: sampleParams_fontSize)
qed

lemma desiredArc_range:
  assumes "unit_draws rnd"
  shows "pi * 0.55 \<le> desiredArc (fst (sampleParams rnd))
       \<and> desiredArc (fst (sampleParams rnd)) < pi * 0.95"
proof -
  let ?k = "11 + 3 * nat (2 + randInt (rnd 6) 0 1)"
  have u: "0 \<le> rnd ?k" "rnd ?k < 1" using assms by (simp_all add: unit_draws_def)
  have "pi * 0.55 < pi * 0.95" using pi_gt_zero by simp
  from rand_bounds [OF u this] show ?thesis by (simp only: sampleParams_desiredArc)
qed

lemma arc_radius_core:
  assumes "unit_draws rnd"
  shows "\<exists>L. curveLayout sf rnd t = Some L
     \<and> arcRadius L
         = max (sumWidth (measureText sf (fontFamily (style (fst (sampleParams rnd))))
                            (fontSize (style (fst (sampleParams rnd)))))
                  (spacingFor t rnd (snd (sampleParams rnd))) t
                / desiredArcClamped (desiredArc (fst (sampleParams rnd))))
             (real_of_int (fontSize (style (fst (sampleParams rnd)))) * 1.1)
     \<and> real_of_int (fontSize (style (fst (sampleParams rnd)))) * 1.1 \<le> arcRadius L"
proof -
  define P where "P = fst (sampleParams rnd)"
  define A where "A = desiredArc P"
  define fs where "fs = real_of_int (fontSize (style P))"
  define mw where "mw = measureText sf (fontFamily (style P)) (fontSize (style P))"
  define sp where "sp = spacingFor t rnd (snd (sampleParams rnd))"
  define R where "R = max (sumWidth mw sp t / desiredArcClamped A) (fs * 1.1)"
  from fontSize_at_least [OF assms] have fs: "0 < fs" by (simp add: fs_def P_def)
  from arcLayout_Some [OF fs R_def] obtain ps where
    "arcLayout mw t sp A fs
       = Some \<lparr>arcRadius = R, placements = ps, arcCursor = sumWidth mw sp t / R\<rparr>"
    by blast
  then have L: "curveLayout sf rnd t
       = Some \<lparr>arcRadius = R, placements = ps, arcCursor = sumWidth mw sp t / R\<rparr>"
    by (simp add: curveLayout_def mw_def sp_def A_def fs_def P_def case_prod_beta)
  have ge: "fs * 1.1 \<le> R" unfolding R_def by (rule max.cobounded2)
  have "\<exists>L. curveLayout sf rnd t = Some L \<and> arcRadius L = R \<and> fs * 1.1 \<le> arcRadius L"
    using L ge by simp
  then show ?thesis
    unfolding R_def mw_def sp_def A_def fs_def P_def .
qed

lemma unit_halfDraws: "unit_draws halfDraws"
  by (simp add: unit_draws_def halfDraws_def)

lemma halfDraws_fontSize: "fontSize (style (fst (sampleParams halfDraws))) = 126"
  by (simp add: sampleParams_fontSize halfDraws_def randInt_def rand_def js_round_def)

lemma halfDraws_desiredArc: "desiredArc (fst (sampleParams halfDraws)) = pi * 3 / 4"
  by (simp add: sampleParams_desiredArc halfDraws_def rand_def)

lemma halfDraws_useCurve: "useCurve (fst (sampleParams halfDraws))"
  by (simp add: sampleParams_def pickBgColors_def pickTextColorsForBg_def Let_def halfDraws_def)

lemma halfDraws_next: "snd (sampleParams halfDraws) = 21"
  by (simp add: sampleParams_next halfDraws_def randInt_def rand_def)

lemma halfDraws_spacing: "spacingFor [72, 73] halfDraws 21 = 28 / 25"
  by (simp add: spacingFor_def halfDraws_def rand_def)

lemma clamp_three_quarter_pi: "desiredArcClamped (pi * 3 / 4) = pi * 3 / 4"
proof -
  have "pi * 0.3 \<le> pi * 3 / 4" "pi * 3 / 4 \<le> pi * 1.5" using pi_gt_zero by simp_all
  then show ?thesis by (rule desiredArcClamped_id)
qed

lemma paintGlyphs_finite: "paintGlyphs throws lw i ps ops \<noteq> Inl NonFinite"
  by (induction ps arbitrary: i ops) (simp_all add: Let_def)

lemma paintLines_finite: "paintLines throws lw i lys ops \<noteq> Inl NonFinite"
  by (induction lys arbitrary: i ops) (auto simp: Let_def split: if_splits)

lemma renderImage_finite:
  assumes "curveLayout sf rnd t \<noteq> None"
  shows "renderImage sf rnd t \<noteq> Inl NonFinite"
  using assms paintGlyphs_finite paintLines_finite
  by (auto simp: renderImage_def Let_def split: prod.splits option.splits sum.splits)

lemma drawTextOnArcLayout_fallback:
  assumes "sumWidth mw sp t \<le> 0"
  shows "drawTextOnArcLayout mw t A sp = Some SingleRun"
  using assms by (simp add: drawTextOnArcLayout_def)

lemma drawTextOnArcLayout_arc:
  assumes "0 < sumWidth mw sp t" "A \<noteq> 0"
  shows "\<exists>ps. drawTextOnArcLayout mw t A sp
           = Some (OnArc \<lparr>arcRadius = sumWidth mw sp t / A, placements = ps, arcCursor = A\<rparr>)
         \<and> arcWalk (sumWidth mw sp t / A) (- A / 2) 0 (zip t (adjWidths mw sp t)) = Some (ps, A)
         \<and> map character ps = t"
proof -
  let ?R = "sumWidth mw sp t / A"
  have R: "?R \<noteq> 0" using assms by simp
  have z: "map snd (zip t (adjWidths mw sp t)) = adjWidths mw sp t"
    "map fst (zip t (adjWidths mw sp t)) = t"
    by (simp_all add: length_adjWidths)
  have c: "sumWidth mw sp t / ?R = A" using assms by simp
  from arcWalk_Some [OF R, of "- A / 2" 0 "zip t (adjWidths mw sp t)"]
  obtain ps where ps:
    "arcWalk ?R (- A / 2) 0 (zip t (adjWidths mw sp t)) = Some (ps, sumWidth mw sp t / ?R)"
    "map character ps = t"
    by (auto simp: z sumWidth_sum_list)
  from ps(1) have walk: "arcWalk ?R (- A / 2) 0 (zip t (adjWidths mw sp t)) = Some (ps, A)"
    by (simp only: c)
  with assms have "drawTextOnArcLayout mw t A sp
      = Some (OnArc \<lparr>arcRadius = ?R, placements = ps, arcCursor = A\<rparr>)"
    by (simp add: drawTextOnArcLayout_def js_div_def)
  with walk ps(2) show ?thesis by blast
qed

lemma drawTextOnArcLayout_span:
  assumes "\<forall>ch. 0 \<le> mw [ch]" "0 \<le> sp" "0 < A" "0 < sumWidth mw sp t"
  shows "\<exists>D. drawTextOnArcLayout mw t A sp = Some (OnArc D)
           \<and> sorted (map angleRadians (placements D))
           \<and> - A / 2 + arcCursor D = A / 2"
proof -
  from assms(3) have A: "A \<noteq> 0" by simp
  from drawTextOnArcLayout_arc [OF assms(4) A] obtain ps where
    D: "drawTextOnArcLayout mw t A sp
          = Some (OnArc \<lparr>arcRadius = sumWidth mw sp t / A, placements = ps, arcCursor = A\<rparr>)"
    and walk: "arcWalk (sumWidth mw sp t / A) (- A / 2) 0 (zip t (adjWidths mw sp t))
                 = Some (ps, A)"
    by blast
  have R: "0 < sumWidth mw sp t / A" using assms(3,4) by simp
  have nn: "\<forall>cw\<in>set (zip t (adjWidths mw sp t)). 0 \<le> snd cw"
    using adjWidths_nonneg [OF assms(1,2), where t = t] by (auto dest: set_zip_rightD)
  from arcWalk_sorted [OF R nn walk] have "sorted (map angleRadians ps)" by simp
  with D show ?thesis by simp
qed

lemma sampleParams_palette:
  "bg (fst (sampleParams rnd)) = fst (pickBgColors rnd 0)"
  "strokeStyle (style (fst (sampleParams rnd)))
     = (if avgLightness (fst (pickBgColors rnd 0)) > 55
        then \<lparr>red = 0, green = 0, blue = 0, alpha = 0.45\<rparr>
        else \<lparr>red = 255, green = 255, blue = 255, alpha = 0.45\<rparr>)"
  "shadowColor (style (fst (sampleParams rnd)))
     = (if avgLightness (fst (pickBgColors rnd 0)) < 55
        then \<lparr>red = 255, green = 255, blue = 255, alpha = 0.25\<rparr>
        else \<lparr>red = 0, green = 0, blue = 0, alpha = 0.35\<rparr>)"
  "shadowBlur (style (fst (sampleParams rnd)))
     = js_round (real_of_int (fontSize (style (fst (sampleParams rnd)))) * 0.12)"
  by (simp_all add: sampleParams_def pickTextColorsForBg_def Let_def case_prod_beta)

lemma halfDraws_avgL: "avgLightness (bg (fst (sampleParams halfDraws))) = 43"
  by (simp add: sampleParams_palette pickBgColors_def avgLightness_def halfDraws_def randInt_def
      rand_def Let_def)

lemma highDraws_avgL: "avgLightness (bg (fst (sampleParams highDraws))) = 57"
  by (simp add: sampleParams_palette pickBgColors_def avgLightness_def highDraws_def randInt_def
      rand_def Let_def)

lemma edgeDraws_avgL: "avgLightness (bg (fst (sampleParams edgeDraws))) = 55"
  by (simp add: sampleParams_palette pickBgColors_def avgLightness_def edgeDraws_def randInt_def
      rand_def Let_def)

section \<open>A run reads at most 23 draws\<close>

lemma darkStops_cong:
  assumes "\<forall>i<3 * n. rnd' (k + i) = rnd (k + i)"
  shows "darkStops b rnd' k n = darkStops b rnd k n"
  using assms
proof (induction n arbitrary: k)
  case 0
  show ?case by simp
next
  case (Suc n)
  have e: "rnd' (k + i) = rnd (k + i)" if "i < 3 * Suc n" for i using Suc.prems that by blast
  have "rnd' k = rnd k" using e [of 0] by simp
  moreover have "rnd' (k + 1) = rnd (k + 1)" using e [of 1] by simp
  moreover have "rnd' (k + 2) = rnd (k + 2)" using e [of 2] by simp
  moreover have "darkStops b rnd' (k + 3) n = darkStops b rnd (k + 3) n"
  proof (rule Suc.IH, intro allI impI)
    fix i assume "i < 3 * n"
    then show "rnd' (k + 3 + i) = rnd (k + 3 + i)" using e [of "3 + i"] by (simp add: add.assoc)
  qed
  ultimately show ?case by simp
qed

lemma lightStops_cong:
  assumes "\<forall>i<3 * n. rnd' (k + i) = rnd (k + i)"
  shows "lightStops b rnd' k n = lightStops b rnd k n"
  using assms
proof (induction n arbitrary: k)
  case 0
  show ?case by simp
next
  case (Suc n)
  have e: "rnd' (k + i) = rnd (k + i)" if "i < 3 * Suc n" for i using Suc.prems that by blast
  have "rnd' k = rnd k" using e [of 0] by simp
  moreover have "rnd' (k + 1) = rnd (k + 1)" using e [of 1] by simp
  moreover have "rnd' (k + 2) = rnd (k + 2)" using e [of 2] by simp
  moreover have "lightStops b rnd' (k + 3) n = lightStops b rnd (k + 3) n"
  proof (rule Suc.IH, intro allI impI)
    fix i assume "i < 3 * n"
    then show "rnd' (k + 3 + i) = rnd (k + 3 + i)" using e [of "3 + i"] by (simp add: add.assoc)
  qed
  ultimately show ?case by simp
qed

lemma pickTextColorsForBg_cong:
  assumes "\<forall>i<3 * n. rnd' (k + i) = rnd (k + i)"
  shows "pickTextColorsForBg b n rnd' k = pickTextColorsForBg b n rnd k"
  by (simp add: pickTextColorsForBg_def Let_def darkStops_cong [OF assms]
      lightStops_cong [OF assms])

lemma stops_at_most_three:
  assumes "unit_draws rnd"
  shows "nat (2 + randInt (rnd 6) 0 1) \<le> 3"
proof -
  have "0 \<le> rnd 6" "rnd 6 < 1" using assms by (simp_all add: unit_draws_def)
  from randInt_bounds [OF this, of 0 1] show ?thesis by linarith
qed

lemma sampleParams_unfolded:
  "sampleParams rnd =
    (let bgc = fst (pickBgColors rnd 0);
         n = nat (2 + randInt (rnd 6) 0 1);
         cols = fst (pickTextColorsForBg bgc n rnd 7);
         k2 = 7 + 3 * n;
         px = js_round (of_int (randInt (rnd (k2 + 1)) 70 140) * 1.2)
     in (\<lparr>bg = bgc, textColorObjs = cols,
          style = \<lparr>textGrad = gradStops cols,
                   fontFamily = fontAt (randInt (rnd k2) 0 (int (length fonts) - 1)),
                   fontSize = px,
                   shadowColor = (if avgLightness bgc < 55
                       then \<lparr>red = 255, green = 255, blue = 255, alpha = 0.25\<rparr>
                       else \<lparr>red = 0, green = 0, blue = 0, alpha = 0.35\<rparr>),
                   shadowBlur = js_round (of_int px * 0.12),
                   strokeStyle = (if avgLightness bgc > 55
                        then \<lparr>red = 0, green = 0, blue = 0, alpha = 0.45\<rparr>
                        else \<lparr>red = 255, green = 255, blue = 255, alpha = 0.45\<rparr>)\<rparr>,
          useCurve = (rnd (k2 + 2) > 0.35),
          rotateAngle = rand (rnd (k2 + 3)) (- 0.35) 0.35,
          desiredArc = rand (rnd (k2 + 4)) (pi * 0.55) (pi * 0.95)\<rparr>, k2 + 5))"
  by (simp add: sampleParams_def pickBgColors_def pickTextColorsForBg_def Let_def)

lemma sampleParams_cong:
  assumes "unit_draws rnd" "\<forall>k<23. rnd' k = rnd k"
  shows "sampleParams rnd' = sampleParams rnd"
proof -
  have e: "rnd' k = rnd k" if "k < 23" for k using assms(2) that by blast
  define n where "n = nat (2 + randInt (rnd 6) 0 1)"
  have n: "n \<le> 3" unfolding n_def by (rule stops_at_most_three [OF assms(1)])
  have n': "nat (2 + randInt (rnd' 6) 0 1) = n" by (simp add: e n_def)
  have bgeq: "pickBgColors rnd' 0 = pickBgColors rnd 0" by (simp add: pickBgColors_def e)
  have "\<forall>i<3 * n. rnd' (7 + i) = rnd (7 + i)" using n by (auto intro: e)
  then have cols: "pickTextColorsForBg b n rnd' 7 = pickTextColorsForBg b n rnd 7" for b
    by (rule pickTextColorsForBg_cong)
  have t: "rnd' (7 + 3 * n) = rnd (7 + 3 * n)" "rnd' (8 + 3 * n) = rnd (8 + 3 * n)"
    "rnd' (9 + 3 * n) = rnd (9 + 3 * n)" "rnd' (10 + 3 * n) = rnd (10 + 3 * n)"
    "rnd' (11 + 3 * n) = rnd (11 + 3 * n)"
    using n by (auto intro: e)
  show ?thesis
    unfolding sampleParams_unfolded n' n_def [symmetric] bgeq cols Let_def
    by (simp add: t)
qed

lemma sampleParams_next_le:
  assumes "unit_draws rnd"
  shows "snd (sampleParams rnd) \<le> 21"
  using stops_at_most_three [OF assms] by (simp add: sampleParams_next)

lemma curveLayout_cong:
  assumes "unit_draws rnd" "\<forall>k<23. rnd' k = rnd k"
    and "measureText sf' (fontFamily (style (fst (sampleParams rnd))))
           (fontSize (style (fst (sampleParams rnd))))
         = measureText sf (fontFamily (style (fst (sampleParams rnd))))
             (fontSize (style (fst (sampleParams rnd))))"
  shows "curveLayout sf' rnd' t = curveLayout sf rnd t"
proof -
  have p: "sampleParams rnd' = sampleParams rnd" by (rule sampleParams_cong [OF assms(1,2)])
  have "snd (sampleParams rnd) + 1 < 23" using sampleParams_next_le [OF assms(1)] by simp
  with assms(2) have "rnd' (snd (sampleParams rnd) + 1) = rnd (snd (sampleParams rnd) + 1)"
    by blast
  then have "spacingFor t rnd' (snd (sampleParams rnd)) = spacingFor t rnd (snd (sampleParams rnd))"
    by (simp add: spacingFor_def)
  then show ?thesis by (simp add: curveLayout_def p case_prod_beta assms(3))
qed

lemma straightLayout_cong:
  assumes "unit_draws rnd" "\<forall>k<23. rnd' k = rnd k"
    and "measureText sf' (fontFamily (style (fst (sampleParams rnd))))
           (fontSize (style (fst (sampleParams rnd))))
         = measureText sf (fontFamily (style (fst (sampleParams rnd))))
             (fontSize (style (fst (sampleParams rnd))))"
  shows "straightLayout sf' rnd' t = straightLayout sf rnd t"
  by (simp add: straightLayout_def sampleParams_cong [OF assms(1,2)] case_prod_beta assms(3))

lemma renderImage_cong:
  assumes "unit_draws rnd" "\<forall>k<23. rnd' k = rnd k"
    and "measureText sf' (fontFamily (style (fst (sampleParams rnd))))
           (fontSize (style (fst (sampleParams rnd))))
         = measureText sf (fontFamily (style (fst (sampleParams rnd))))
             (fontSize (style (fst (sampleParams rnd))))"
    and "strokeThrows sf' = strokeThrows sf"
  shows "renderImage sf' rnd' t = renderImage sf rnd t"
proof -
  have p: "sampleParams rnd' = sampleParams rnd" by (rule sampleParams_cong [OF assms(1,2)])
  have "snd (sampleParams rnd) < 23" using sampleParams_next_le [OF assms(1)] by simp
  with assms(2) have j: "rnd' (snd (sampleParams rnd)) = rnd (snd (sampleParams rnd))"
    by blast
  show ?thesis
    by (simp add: renderImage_def p j case_prod_beta Let_def assms(4)
        curveLayout_cong [OF assms(1,2,3)] straightLayout_cong [OF assms(1,2,3)]
        cong: option.case_cong)
qed

lemma halfDraws_fontFamily: "fontFamily (style (fst (sampleParams halfDraws))) = Some ComicSansMS"
  by (simp add: sampleParams_unfolded Let_def halfDraws_def randInt_def rand_def fontAt_def
      fonts_def)

section \<open>The wrapping loop\<close>

lemma split_sp_nonempty: "split_sp t \<noteq> []"
  by (induction t) (auto split: list.splits)

lemma split_sp_append: "split_sp (a @ 32 # b) = split_sp a @ split_sp b"
proof (induction a)
  case Nil
  show ?case by simp
next
  case (Cons c a)
  show ?case
  proof (cases "c = 32")
    case True
    then show ?thesis by (simp add: Cons.IH)
  next
    case False
    obtain w ws where s: "split_sp a = w # ws"
      using split_sp_nonempty [of a] by (cases "split_sp a") auto
    from False show ?thesis by (simp add: Cons.IH s)
  qed
qed

lemma split_sp_no_space: "32 \<notin> set t \<Longrightarrow> split_sp t = [t]"
  by (induction t) auto

lemma split_sp_words_no_space: "w \<in> set (split_sp t) \<Longrightarrow> 32 \<notin> set w"
proof (induction t arbitrary: w)
  case Nil
  then show ?case by simp
next
  case (Cons c t)
  obtain v vs where s: "split_sp t = v # vs"
    using split_sp_nonempty [of t] by (cases "split_sp t") auto
  show ?case
  proof (cases "c = 32")
    case True
    with Cons.prems have "w = [] \<or> w \<in> set (split_sp t)" by simp
    then show ?thesis using Cons.IH by auto
  next
    case False
    with Cons.prems s have "w = c # v \<or> w \<in> set vs" by simp
    then show ?thesis
    proof
      assume "w = c # v"
      moreover have "32 \<notin> set v" using Cons.IH [of v] s by simp
      ultimately show ?thesis using False by simp
    next
      assume "w \<in> set vs"
      then show ?thesis using Cons.IH [of w] s by simp
    qed
  qed
qed

lemma split_sp_testLine:
  assumes "32 \<notin> set w"
  shows "split_sp (testLine cl w) = (if cl \<noteq> [] then split_sp cl @ [w] else [w])"
  using assms by (simp add: testLine_def split_sp_append split_sp_no_space)

lemma wrapLoop_widths:
  assumes "wrapLoop mw M ws cl acc = (acc', cl')"
    and "\<forall>l\<in>set acc. mw l \<le> M \<or> l \<in> W"
    and "cl = [] \<or> mw cl \<le> M \<or> cl \<in> W"
    and "set ws \<subseteq> W"
  shows "(\<forall>l\<in>set acc'. mw l \<le> M \<or> l \<in> W) \<and> (cl' = [] \<or> mw cl' \<le> M \<or> cl' \<in> W)"
  using assms
proof (induction ws arbitrary: cl acc)
  case Nil
  then show ?case by simp
next
  case (Cons w ws)
  from Cons.prems(4) have w: "w \<in> W" and ws: "set ws \<subseteq> W" by simp_all
  show ?case
  proof (cases "mw (testLine cl w) > M \<and> cl \<noteq> []")
    case True
    with Cons.prems(1) have loop: "wrapLoop mw M ws w (acc @ [cl]) = (acc', cl')" by simp
    from True Cons.prems(3) have "mw cl \<le> M \<or> cl \<in> W" by blast
    with Cons.prems(2) have a: "\<forall>l\<in>set (acc @ [cl]). mw l \<le> M \<or> l \<in> W" by simp
    from w have c: "w = [] \<or> mw w \<le> M \<or> w \<in> W" by blast
    from Cons.IH [OF loop a c ws] show ?thesis .
  next
    case False
    with Cons.prems(1) have loop: "wrapLoop mw M ws (testLine cl w) acc = (acc', cl')"
      by (simp split: if_splits)
    from False w have c: "testLine cl w = [] \<or> mw (testLine cl w) \<le> M \<or> testLine cl w \<in> W"
      by (cases "cl = []") (auto simp: testLine_def)
    from Cons.IH [OF loop Cons.prems(2) c ws] show ?thesis .
  qed
qed

lemma wrapLines_widths:
  assumes "l \<in> set (wrapLines mw M t)"
  shows "mw l \<le> M \<or> l \<in> set (split_sp t)"
proof -
  obtain acc' cl' where loop: "wrapLoop mw M (split_sp t) [] [] = (acc', cl')"
    by (cases "wrapLoop mw M (split_sp t) [] []")
  from wrapLoop_widths [OF loop, of "set (split_sp t)"]
  have "\<forall>l\<in>set acc'. mw l \<le> M \<or> l \<in> set (split_sp t)"
    "cl' = [] \<or> mw cl' \<le> M \<or> cl' \<in> set (split_sp t)"
    by simp_all
  with assms loop show ?thesis by (auto simp: wrapLines_def split: if_splits)
qed

lemma wrapLoop_words:
  assumes "wrapLoop mw M ws cl acc = (acc', cl')"
    and "\<forall>w\<in>set ws. 32 \<notin> set w \<and> w \<noteq> []"
  shows "concat (map split_sp acc') @ (if cl' \<noteq> [] then split_sp cl' else [])
       = concat (map split_sp acc) @ (if cl \<noteq> [] then split_sp cl else []) @ ws"
  using assms
proof (induction ws arbitrary: cl acc)
  case Nil
  then show ?case by simp
next
  case (Cons w ws)
  from Cons.prems(2) have w: "32 \<notin> set w" "w \<noteq> []"
    and ws: "\<forall>w\<in>set ws. 32 \<notin> set w \<and> w \<noteq> []" by simp_all
  show ?case
  proof (cases "mw (testLine cl w) > M \<and> cl \<noteq> []")
    case True
    with Cons.prems(1) have loop: "wrapLoop mw M ws w (acc @ [cl]) = (acc', cl')" by simp
    from Cons.IH [OF loop ws] True w show ?thesis by (simp add: split_sp_no_space)
  next
    case False
    with Cons.prems(1) have loop: "wrapLoop mw M ws (testLine cl w) acc = (acc', cl')"
      by (simp split: if_splits)
    have ne: "testLine cl w \<noteq> []" using w(2) by (simp add: testLine_def)
    from Cons.IH [OF loop ws] ne show ?thesis
      by (simp add: split_sp_testLine [OF w(1)])
  qed
qed

lemma wrapLoop_nonempty_words:
  assumes "wrapLoop mw M ws cl acc = (acc', cl')"
    and "\<forall>w\<in>set ws. 32 \<notin> set w"
  shows "filter (\<lambda>w. w \<noteq> []) (concat (map split_sp acc') @ split_sp cl')
       = filter (\<lambda>w. w \<noteq> []) (concat (map split_sp acc) @ split_sp cl @ ws)"
  using assms
proof (induction ws arbitrary: cl acc)
  case Nil
  then show ?case by simp
next
  case (Cons w ws)
  from Cons.prems(2) have w: "32 \<notin> set w" and ws: "\<forall>w\<in>set ws. 32 \<notin> set w" by simp_all
  show ?case
  proof (cases "mw (testLine cl w) > M \<and> cl \<noteq> []")
    case True
    with Cons.prems(1) have loop: "wrapLoop mw M ws w (acc @ [cl]) = (acc', cl')" by simp
    from Cons.IH [OF loop ws] w show ?thesis by (simp add: split_sp_no_space)
  next
    case False
    with Cons.prems(1) have loop: "wrapLoop mw M ws (testLine cl w) acc = (acc', cl')"
      by (simp split: if_splits)
    from Cons.IH [OF loop ws] show ?thesis
      by (simp add: split_sp_testLine [OF w])
  qed
qed

lemma wrapLines_words:
  assumes "[] \<notin> set (split_sp t)"
  shows "concat (map split_sp (wrapLines mw M t)) = split_sp t"
proof -
  obtain acc' cl' where loop: "wrapLoop mw M (split_sp t) [] [] = (acc', cl')"
    by (cases "wrapLoop mw M (split_sp t) [] []")
  have ws: "\<forall>w\<in>set (split_sp t). 32 \<notin> set w \<and> w \<noteq> []"
    using assms split_sp_words_no_space by metis
  from wrapLoop_words [OF loop ws] loop show ?thesis
    by (cases "cl' = []") (simp_all add: wrapLines_def)
qed

lemma wrapLines_nonempty_words:
  "filter (\<lambda>w. w \<noteq> []) (concat (map split_sp (wrapLines mw M t)))
     = filter (\<lambda>w. w \<noteq> []) (split_sp t)"
proof -
  obtain acc' cl' where loop: "wrapLoop mw M (split_sp t) [] [] = (acc', cl')"
    by (cases "wrapLoop mw M (split_sp t) [] []")
  have ws: "\<forall>w\<in>set (split_sp t). 32 \<notin> set w"
    using split_sp_words_no_space by blast
  from wrapLoop_nonempty_words [OF loop ws] loop show ?thesis
    by (cases "cl' = []") (simp_all add: wrapLines_def)
qed

lemma straightLayout_lines:
  "map fst (straightLayout sf rnd t)
     = wrapLines (measureText sf (fontFamily (style (fst (sampleParams rnd))))
                    (fontSize (style (fst (sampleParams rnd))))) 1120 t"
  by (simp add: straightLayout_def case_prod_beta Let_def o_def map_nth)

lemma quarterDraws_straight: "\<not> useCurve (fst (sampleParams quarterDraws))"
  by (simp add: sampleParams_unfolded Let_def quarterDraws_def)

lemma plainSurface_lines:
  "map fst (straightLayout (plainSurface w) rnd t) = wrapLines (fixedWidth w) 1120 t"
  by (simp add: straightLayout_lines plainSurface_def)

section \<open>A stroke that throws\<close>














section \<open>Blank prompts\<close>

lemma trim_blank_iff: "trim t = [] \<longleftrightarrow> (\<forall>c\<in>set t. is_js_space c)"
proof
  assume "\<forall>c\<in>set t. is_js_space c"
  then have "dropWhile is_js_space t = []" by simp
  then have "trim t = rev (dropWhile is_js_space (rev []))" by (simp only: trim_def)
  then show "trim t = []" by simp
next
  assume "trim t = []"
  then have "dropWhile is_js_space (rev (dropWhile is_js_space t)) = []"
    by (simp add: trim_def)
  then have all: "\<forall>c\<in>set (dropWhile is_js_space t). is_js_space c"
    by (simp add: dropWhile_eq_Nil_conv)
  have "dropWhile is_js_space t = []"
  proof (rule ccontr)
    assume ne: "dropWhile is_js_space t \<noteq> []"
    then have "\<not> is_js_space (hd (dropWhile is_js_space t))" by (rule hd_dropWhile)
    moreover from ne have "hd (dropWhile is_js_space t) \<in> set (dropWhile is_js_space t)"
      by (rule hd_in_set)
    ultimately show False using all by blast
  qed
  then show "\<forall>c\<in>set t. is_js_space c" by (simp add: dropWhile_eq_Nil_conv)
qed

lemma nonblank_prompt_schedules:
  assumes "\<not> (\<forall>c\<in>set (prompt st). is_js_space c)"
  shows "generateImage st = st\<lparr>loading := True, imageUrl := None, timers := timers st @ [prompt st]\<rparr>"
proof -
  from assms have "trim (prompt st) \<noteq> []" by (simp only: trim_blank_iff not_False_eq_True)
  then show ?thesis by (simp add: generateImage_def)
qed

section \<open>Contrast policy\<close>

text \<open>
  Claim C3 says that with an average background lightness above 55 every text colour stop has
  lightness at most 35, so that none lies in the band from 36 to 67. In binary64 the code
  misses the bound at the top of the random range: for the draw \<open>1 - 2 ^ - 53\<close>, the largest
  double below 1, \<^verbatim>\<open>randInt(8, 35)\<close> is 36, and the stop of a background of average lightness 59
  has lightness 36.
\<close>

theorem dark_stop_lightness_36:
  "unit_draws topDraws
   \<and> topDraws 2 = 1 - 1 / 2 ^ 53
   \<and> randInt64 (topDraws 2) 8 35 = 36
   \<and> avgLightness (\<lparr>hue = 200, saturation = 60, lightness = 60\<rparr>,
                     \<lparr>hue = 220, saturation = 60, lightness = 58\<rparr>) > 55
   \<and> map lightness (fst (pickTextColorsForBg64
                            (\<lparr>hue = 200, saturation = 60, lightness = 60\<rparr>,
                             \<lparr>hue = 220, saturation = 60, lightness = 58\<rparr>) 1 topDraws 0))
       = [36]"
proof -
  have u: "unit_draws topDraws" by (simp add: unit_draws_def topDraws_def)
  have t: "topDraws 2 = 1 - 1 / 2 ^ 53" by (simp only: topDraws_def)
  have r: "randInt64 (topDraws 2) 8 35 = 36" by (simp only: t randInt64_overshoot)
  have a: "avgLightness (\<lparr>hue = 200, saturation = 60, lightness = 60\<rparr>,
                     \<lparr>hue = 220, saturation = 60, lightness = 58\<rparr>) > 55"
    by (simp add: avgLightness_def)
  have l: "map lightness (fst (pickTextColorsForBg64
                            (\<lparr>hue = 200, saturation = 60, lightness = 60\<rparr>,
                             \<lparr>hue = 220, saturation = 60, lightness = 58\<rparr>) 1 topDraws 0))
       = [36]"
  proof -
    have "randInt64 (topDraws k) 8 35 = 36" for k
      by (simp only: topDraws_def randInt64_overshoot)
    then show ?thesis by (simp add: pickTextColorsForBg64_def fl64_numeral Let_def)
  qed
  from u t r a l show ?thesis by (intro conjI)
qed

section \<open>Properties of the arc layout\<close>

text \<open>
  Claim C1, as amended. Where no character measures a negative width, the layout inside
  \<^verbatim>\<open>generateImage\<close> places one glyph for each character, with angles that never decrease in
  character order. The angle that the slices take together is \<open>sumWidth / radius\<close>; it is
  never more than the clamped arc span \<open>A\<close>, and it is \<open>A\<close> exactly when the radius floor
  \<open>1.1 \<times> fontSize\<close> is not above \<open>sumWidth / A\<close>. In that case every glyph lies between
  \<open>- A / 2\<close> and \<open>+ A / 2\<close> and the slice of the last character ends at \<open>+ A / 2\<close>: the arc is
  used up and centred on 0. Where the floor lifts the radius, the slices take less than \<open>A\<close>.
  \<^verbatim>\<open>drawTextOnArc\<close>, which has no radius floor, uses its arc span up exactly whenever the span
  and \<open>sumWidth\<close> are positive, with angles that never decrease.
\<close>

theorem arc_angles_sorted_and_span:
  assumes "\<forall>ch. 0 \<le> mw [ch]" and "0 \<le> sp" and "0 < fs"
  shows "(\<exists>L. arcLayout mw t sp A fs = Some L
     \<and> map character (placements L) = t
     \<and> sorted (map angleRadians (placements L))
     \<and> arcCursor L = sumWidth mw sp t / arcRadius L
     \<and> arcCursor L \<le> desiredArcClamped A
     \<and> (arcCursor L = desiredArcClamped A
          \<longleftrightarrow> fs * 1.1 \<le> sumWidth mw sp t / desiredArcClamped A)
     \<and> (fs * 1.1 \<le> sumWidth mw sp t / desiredArcClamped A \<longrightarrow>
          (\<forall>p\<in>set (placements L). - desiredArcClamped A / 2 \<le> angleRadians p
                                   \<and> angleRadians p \<le> desiredArcClamped A / 2)
          \<and> - desiredArcClamped A / 2 + arcCursor L = desiredArcClamped A / 2))
   \<and> (0 < A \<longrightarrow> 0 < sumWidth mw sp t \<longrightarrow>
        (\<exists>D. drawTextOnArcLayout mw t A sp = Some (OnArc D)
           \<and> sorted (map angleRadians (placements D))
           \<and> - A / 2 + arcCursor D = A / 2))"
proof -
  let ?S = "sumWidth mw sp t" and ?Ac = "desiredArcClamped A"
  let ?R = "max (?S / ?Ac) (fs * 1.1)"
  from arcLayout_Some [OF assms(3) refl, where mw = mw and sp = sp and t = t and A = A]
  obtain ps where
    L: "arcLayout mw t sp A fs = Some \<lparr>arcRadius = ?R, placements = ps, arcCursor = ?S / ?R\<rparr>"
    and walk: "arcWalk ?R (- ?Ac / 2) 0 (zip t (adjWidths mw sp t)) = Some (ps, ?S / ?R)"
    and chars: "map character ps = t"
    by blast
  have "fs * 1.1 \<le> ?R" by simp
  with assms(3) have R: "0 < ?R" by linarith
  have nn: "\<forall>cw\<in>set (zip t (adjWidths mw sp t)). 0 \<le> snd cw"
    using adjWidths_nonneg [OF assms(1,2), where t = t] by (auto dest: set_zip_rightD)
  define c where "c = ?S / ?R"
  from arcWalk_sorted [OF R nn walk] have sorted: "sorted (map angleRadians ps)"
    and within: "\<forall>p\<in>set ps. - ?Ac / 2 + 0 \<le> angleRadians p \<and> angleRadians p \<le> - ?Ac / 2 + c"
    unfolding c_def by blast+
  have f: "0 < fs * 1.1" using assms(3) by simp
  from span_consumed_iff [OF sumWidth_nonneg [OF assms(1,2), where t = t]
      desiredArcClamped_pos [of A] f]
  have c: "c \<le> ?Ac" "c = ?Ac \<longleftrightarrow> fs * 1.1 \<le> ?S / ?Ac"
    unfolding c_def by blast+
  have centred: "(\<forall>p\<in>set ps. - ?Ac / 2 \<le> angleRadians p \<and> angleRadians p \<le> ?Ac / 2)
      \<and> - ?Ac / 2 + c = ?Ac / 2" if "fs * 1.1 \<le> ?S / ?Ac"
  proof -
    from that c(2) have e: "c = ?Ac" by blast
    have "- ?Ac / 2 + c = ?Ac / 2" unfolding e by simp
    with within show ?thesis by simp
  qed
  let ?L = "\<lparr>arcRadius = ?R, placements = ps, arcCursor = c\<rparr>"
  have "arcLayout mw t sp A fs = Some ?L" using L by (simp only: c_def)
  moreover have "map character (placements ?L) = t" using chars by simp
  moreover have "sorted (map angleRadians (placements ?L))" using sorted by simp
  moreover have "arcCursor ?L = ?S / arcRadius ?L" by (simp add: c_def)
  moreover have "arcCursor ?L \<le> ?Ac" using c(1) by simp
  moreover have "arcCursor ?L = ?Ac \<longleftrightarrow> fs * 1.1 \<le> ?S / ?Ac"
    using c(2) by simp
  moreover have "fs * 1.1 \<le> ?S / ?Ac \<longrightarrow>
      (\<forall>p\<in>set (placements ?L). - ?Ac / 2 \<le> angleRadians p \<and> angleRadians p \<le> ?Ac / 2)
      \<and> - ?Ac / 2 + arcCursor ?L = ?Ac / 2"
    using centred by simp
  ultimately have main: "\<exists>L. arcLayout mw t sp A fs = Some L
     \<and> map character (placements L) = t
     \<and> sorted (map angleRadians (placements L))
     \<and> arcCursor L = sumWidth mw sp t / arcRadius L
     \<and> arcCursor L \<le> desiredArcClamped A
     \<and> (arcCursor L = desiredArcClamped A
          \<longleftrightarrow> fs * 1.1 \<le> sumWidth mw sp t / desiredArcClamped A)
     \<and> (fs * 1.1 \<le> sumWidth mw sp t / desiredArcClamped A \<longrightarrow>
          (\<forall>p\<in>set (placements L). - desiredArcClamped A / 2 \<le> angleRadians p
                                   \<and> angleRadians p \<le> desiredArcClamped A / 2)
          \<and> - desiredArcClamped A / 2 + arcCursor L = desiredArcClamped A / 2)"
    by (intro exI [of _ ?L] conjI)
  from drawTextOnArcLayout_span [OF assms(1,2)] main show ?thesis by blast
qed

text \<open>The theorem at a five-letter string whose radius is above the floor: the arc is used up.\<close>

theorem arc_angles_sorted_and_span_witness:
  "(\<forall>ch. 0 \<le> fixedWidth 60 [ch]) \<and> (0 :: real) \<le> 11 / 10 \<and> (0 :: real) < 100
   \<and> 100 * 1.1 \<le> sumWidth (fixedWidth 60) (11 / 10) [72, 69, 76, 76, 79] / desiredArcClamped 2
   \<and> (\<exists>L. arcLayout (fixedWidth 60) [72, 69, 76, 76, 79] (11 / 10) 2 100 = Some L
          \<and> sorted (map angleRadians (placements L))
          \<and> - desiredArcClamped 2 / 2 + arcCursor L = desiredArcClamped 2 / 2)
   \<and> (0 :: real) < 2 \<and> 0 < sumWidth (fixedWidth 60) (11 / 10) [72, 69, 76, 76, 79]
   \<and> (\<exists>D. drawTextOnArcLayout (fixedWidth 60) [72, 69, 76, 76, 79] 2 (11 / 10) = Some (OnArc D)
          \<and> sorted (map angleRadians (placements D))
          \<and> - 2 / 2 + arcCursor D = 2 / 2)"
proof -
  have h1: "\<forall>ch. 0 \<le> fixedWidth 60 [ch]" by (simp add: fixedWidth_def)
  have h2: "(0 :: real) \<le> 11 / 10" and h3: "(0 :: real) < 100" by simp_all
  have h4: "100 * 1.1 \<le> sumWidth (fixedWidth 60) (11 / 10) [72, 69, 76, 76, 79] / desiredArcClamped 2"
    by (simp add: sumWidth_def adjWidths_def fixedWidth_def clamp_two)
  have h5: "(0 :: real) < 2" by simp
  have h6: "0 < sumWidth (fixedWidth 60) (11 / 10) [72, 69, 76, 76, 79]"
    by (simp add: sumWidth_def adjWidths_def fixedWidth_def)
  note inst = arc_angles_sorted_and_span [OF h1 h2 h3, where t = "[72, 69, 76, 76, 79]" and A = 2]
  from inst h4
  have a: "\<exists>L. arcLayout (fixedWidth 60) [72, 69, 76, 76, 79] (11 / 10) 2 100 = Some L
          \<and> sorted (map angleRadians (placements L))
          \<and> - desiredArcClamped 2 / 2 + arcCursor L = desiredArcClamped 2 / 2"
    by blast
  from inst h5 h6
  have b: "\<exists>D. drawTextOnArcLayout (fixedWidth 60) [72, 69, 76, 76, 79] 2 (11 / 10) = Some (OnArc D)
          \<and> sorted (map angleRadians (placements D))
          \<and> - 2 / 2 + arcCursor D = 2 / 2"
    by blast
  from h1 h2 h3 h4 a h5 h6 b show ?thesis by (intro conjI)
qed

text \<open>
  The claim as it was stated fails for a short string. In the run with every draw one half
  the branch is the curved one, the font size is 126, the arc span \<open>3 \<pi> / 4\<close> and the spacing
  1.12; two letters of 60 pixels give \<open>sumWidth = 134.4\<close>, the radius is the floor 138.6, the
  two slices take \<open>32 / 33\<close> of a radian, and the last slice ends more than half a radian
  before \<open>+ 3 \<pi> / 8\<close>.
\<close>

theorem arc_span_left_over_counterexample:
  "useCurve (fst (sampleParams halfDraws))
   \<and> desiredArcClamped (desiredArc (fst (sampleParams halfDraws))) = pi * 3 / 4
   \<and> curveLayout (plainSurface 60) halfDraws [72, 73]
       = Some \<lparr>arcRadius = 693 / 5,
               placements = [\<lparr>character = 72, angleRadians = - (pi * 3 / 4) / 2 + 8 / 33,
                              radiusPx = 693 / 5\<rparr>,
                             \<lparr>character = 73, angleRadians = - (pi * 3 / 4) / 2 + 8 / 11,
                              radiusPx = 693 / 5\<rparr>],
               arcCursor = 32 / 33\<rparr>
   \<and> - (pi * 3 / 4) / 2 + 32 / 33 < (pi * 3 / 4) / 2 - 1 / 2"
proof -
  have q: "max (672 / (pi * 15 / 4)) (693 / 5) = (693 / 5 :: real)"
  proof -
    have "0 < pi * 15 / 4" using pi_gt_zero by simp
    moreover have "672 \<le> 693 / 5 * (pi * 15 / 4)" using pi_ge_two by simp
    ultimately have "672 / (pi * 15 / 4) \<le> 693 / 5" by (simp only: pos_divide_le_eq)
    then show ?thesis by (rule max.absorb2)
  qed
  have l: "curveLayout (plainSurface 60) halfDraws [72, 73]
       = Some \<lparr>arcRadius = 693 / 5,
               placements = [\<lparr>character = 72, angleRadians = - (pi * 3 / 4) / 2 + 8 / 33,
                              radiusPx = 693 / 5\<rparr>,
                             \<lparr>character = 73, angleRadians = - (pi * 3 / 4) / 2 + 8 / 11,
                              radiusPx = 693 / 5\<rparr>],
               arcCursor = 32 / 33\<rparr>"
    using q
    by (simp add: curveLayout_def case_prod_beta halfDraws_fontSize halfDraws_desiredArc
        halfDraws_next halfDraws_spacing clamp_three_quarter_pi arcLayout_def sumWidth_def
        adjWidths_def fixedWidth_def plainSurface_def js_div_def Let_def)
  have g: "- (pi * 3 / 4) / 2 + 32 / 33 < (pi * 3 / 4) / 2 - 1 / 2"
    using pi_ge_two by simp
  from halfDraws_useCurve l g show ?thesis
    by (simp only: halfDraws_desiredArc clamp_three_quarter_pi simp_thms)
qed



text \<open>
  Claim C7. In every run of \<^verbatim>\<open>generateImage\<close> the sampled arc span lies between \<open>0.55 \<pi>\<close> and
  \<open>0.95 \<pi>\<close>, it is clamped into \<open>0.3 \<pi>\<close> to \<open>1.5 \<pi>\<close>, and the radius of the arc is the larger of
  \<open>sumWidth\<close> divided by the clamped span and 1.1 times the font size; so the radius is never
  below 1.1 times the font size.
\<close>

theorem arc_radius_floor:
  assumes "unit_draws rnd"
  shows "let P = fst (sampleParams rnd);
             A = desiredArc P;
             fs = real_of_int (fontSize (style P));
             mw = measureText sf (fontFamily (style P)) (fontSize (style P));
             sp = spacingFor t rnd (snd (sampleParams rnd))
         in pi * 0.55 \<le> A \<and> A \<le> pi * 0.95
          \<and> desiredArcClamped A = max (min A (pi * 1.5)) (pi * 0.3)
          \<and> pi * 0.3 \<le> desiredArcClamped A \<and> desiredArcClamped A \<le> pi * 1.5
          \<and> (\<exists>L. curveLayout sf rnd t = Some L
                 \<and> arcRadius L = max (sumWidth mw sp t / desiredArcClamped A) (fs * 1.1)
                 \<and> fs * 1.1 \<le> arcRadius L)"
proof -
  let ?A = "desiredArc (fst (sampleParams rnd))"
  from desiredArc_range [OF assms] have A: "pi * 0.55 \<le> ?A" "?A \<le> pi * 0.95"
    by simp_all
  have cl: "desiredArcClamped ?A = max (min ?A (pi * 1.5)) (pi * 0.3)"
    by (simp only: desiredArcClamped_def)
  from A cl desiredArcClamped_bounds [of ?A] arc_radius_core [OF assms, of sf t]
  show ?thesis unfolding Let_def by (intro conjI) blast+
qed

theorem arc_radius_floor_witness:
  "unit_draws halfDraws
   \<and> desiredArc (fst (sampleParams halfDraws)) = pi * 3 / 4
   \<and> fontSize (style (fst (sampleParams halfDraws))) = 126
   \<and> (\<exists>L. curveLayout (plainSurface 60) halfDraws [72, 73] = Some L
          \<and> 126 * 1.1 \<le> arcRadius L)"
proof -
  have "\<exists>L. curveLayout (plainSurface 60) halfDraws [72, 73] = Some L
          \<and> real_of_int (fontSize (style (fst (sampleParams halfDraws)))) * 1.1 \<le> arcRadius L"
    using arc_radius_floor [OF unit_halfDraws, of "plainSurface 60" "[72, 73]"]
    unfolding Let_def by blast
  then show ?thesis
    using unit_halfDraws by (simp add: halfDraws_desiredArc halfDraws_fontSize)
qed

text \<open>
  No division of the arc layout has a zero divisor: \<^verbatim>\<open>drawTextOnArc\<close> returns early when
  \<open>sumWidth \<le> 0\<close>, and inside \<^verbatim>\<open>generateImage\<close> the radius and the clamped arc span are positive,
  whatever \<open>sumWidth\<close> is.
\<close>

lemma arc_divisors_nonzero:
  assumes "unit_draws rnd"
  shows "(sumWidth mw sp t \<le> 0 \<longrightarrow>
            drawTextOnArcLayout mw t A sp = Some SingleRun
          \<and> drawTextOnArc mw throws ctxFontSize t cx cy A sp = Some [FillText t cx cy])
       \<and> (0 < sumWidth mw sp t \<longrightarrow> A \<noteq> 0 \<longrightarrow>
            (\<exists>L. drawTextOnArcLayout mw t A sp = Some (OnArc L) \<and> arcRadius L \<noteq> 0))
       \<and> (\<exists>L. curveLayout sf rnd t = Some L \<and> 0 < arcRadius L)
       \<and> 0 < desiredArcClamped (desiredArc (fst (sampleParams rnd)))
       \<and> renderImage sf rnd t \<noteq> Inl NonFinite"
proof -
  have a: "sumWidth mw sp t \<le> 0 \<longrightarrow>
            drawTextOnArcLayout mw t A sp = Some SingleRun
          \<and> drawTextOnArc mw throws ctxFontSize t cx cy A sp = Some [FillText t cx cy]"
    by (simp add: drawTextOnArc_def drawTextOnArcLayout_fallback)
  have b: "0 < sumWidth mw sp t \<longrightarrow> A \<noteq> 0 \<longrightarrow>
            (\<exists>L. drawTextOnArcLayout mw t A sp = Some (OnArc L) \<and> arcRadius L \<noteq> 0)"
  proof (intro impI)
    assume s: "0 < sumWidth mw sp t" and A: "A \<noteq> 0"
    from drawTextOnArcLayout_arc [OF s A] obtain ps where
      "drawTextOnArcLayout mw t A sp
         = Some (OnArc \<lparr>arcRadius = sumWidth mw sp t / A, placements = ps, arcCursor = A\<rparr>)"
      by blast
    moreover have "sumWidth mw sp t / A \<noteq> 0" using s A by simp
    ultimately show "\<exists>L. drawTextOnArcLayout mw t A sp = Some (OnArc L) \<and> arcRadius L \<noteq> 0"
      by simp
  qed
  from fontSize_at_least [OF assms]
  have fs: "0 < real_of_int (fontSize (style (fst (sampleParams rnd))))" by simp
  have c: "\<exists>L. curveLayout sf rnd t = Some L \<and> 0 < arcRadius L"
  proof -
    let ?fs = "real_of_int (fontSize (style (fst (sampleParams rnd))))"
    from arc_radius_core [OF assms, of sf t] obtain L where
      "curveLayout sf rnd t = Some L" "?fs * 1.1 \<le> arcRadius L"
      by blast
    with fs show ?thesis by (intro exI [of _ L]) simp
  qed
  then have d: "renderImage sf rnd t \<noteq> Inl NonFinite"
    by (intro renderImage_finite) auto
  from a b c d desiredArcClamped_pos show ?thesis by blast
qed

lemma zero_width_layout:
  "curveLayout (plainSurface 0) halfDraws [8203]
       = Some \<lparr>arcRadius = 693 / 5,
               placements = [\<lparr>character = 8203, angleRadians = - (pi * 3 / 4) / 2,
                              radiusPx = 693 / 5\<rparr>],
               arcCursor = 0\<rparr>"
  by (simp add: curveLayout_def case_prod_beta halfDraws_fontSize
      halfDraws_desiredArc clamp_three_quarter_pi arcLayout_def sumWidth_def adjWidths_def
      fixedWidth_def plainSurface_def js_div_def Let_def)

text \<open>
  Claim C2 says that a total adjusted width \<open>sumWidth \<le> 0\<close> sends the arc layout to the
  fallback, which draws the string as one centred run and computes no angle. \<^verbatim>\<open>drawTextOnArc\<close>
  has that test, but nothing calls it, and the copy of the layout inside \<^verbatim>\<open>generateImage\<close> has
  not. For the prompt of one zero-width space (code unit 8203, which \<^verbatim>\<open>trim\<close> keeps) on a
  surface that measures it 0 pixels wide, the run with every draw one half takes the curved
  branch with \<open>sumWidth = 0\<close> and still rotates by \<open>- 3 \<pi> / 8\<close> and moves out by the radius 138.6
  before it fills and strokes the glyph; \<^verbatim>\<open>drawTextOnArc\<close> with the same text, span and spacing
  draws the string once at the centre.
\<close>

theorem zero_width_prompt_laid_on_arc:
  "useCurve (fst (sampleParams halfDraws))
   \<and> sumWidth (fixedWidth 0) (spacingFor [8203] halfDraws (snd (sampleParams halfDraws))) [8203] \<le> 0
   \<and> curveLayout (plainSurface 0) halfDraws [8203]
       = Some \<lparr>arcRadius = 693 / 5,
               placements = [\<lparr>character = 8203, angleRadians = - (pi * 3 / 4) / 2,
                              radiusPx = 693 / 5\<rparr>],
               arcCursor = 0\<rparr>
   \<and> renderImage (plainSurface 0) halfDraws [8203]
       = Inr [FillRect (fst (bg (fst (sampleParams halfDraws))))
                (snd (bg (fst (sampleParams halfDraws)))),
              SetStyle (style (fst (sampleParams halfDraws))),
              Save, Translate 700 440, Rotate (rotateAngle (fst (sampleParams halfDraws))),
              Save, Rotate (- (pi * 3 / 4) / 2), Translate 0 (- (693 / 5)),
              FillText [8203] 0 0, LineWidth 8, StrokeText [8203] 0 0, Restore,
              Restore]
   \<and> drawTextOnArc (fixedWidth 0) (strokeThrows (plainSurface 0)) None [8203] 0 0
         (pi * 3 / 4) (28 / 25)
       = Some [FillText [8203] 0 0]"
proof -
  have s: "sumWidth (fixedWidth 0) (spacingFor [8203] halfDraws (snd (sampleParams halfDraws)))
             [8203] \<le> 0"
    by (simp add: sumWidth_def adjWidths_def fixedWidth_def)
  have w: "strokeWidth 126 = 8"
    by (simp add: strokeWidth_def js_round_def)
  have j: "rand (halfDraws 21) (- 20) 40 = 10"
    by (simp add: rand_def halfDraws_def)
  have t: "strokeThrows (plainSurface 0) = (\<lambda>i. False)"
    by (simp add: plainSurface_def)
  have r: "renderImage (plainSurface 0) halfDraws [8203]
       = Inr [FillRect (fst (bg (fst (sampleParams halfDraws))))
                (snd (bg (fst (sampleParams halfDraws)))),
              SetStyle (style (fst (sampleParams halfDraws))),
              Save, Translate 700 440, Rotate (rotateAngle (fst (sampleParams halfDraws))),
              Save, Rotate (- (pi * 3 / 4) / 2), Translate 0 (- (693 / 5)),
              FillText [8203] 0 0, LineWidth 8, StrokeText [8203] 0 0, Restore,
              Restore]"
    by (simp add: renderImage_def case_prod_beta Let_def halfDraws_useCurve zero_width_layout
        halfDraws_fontSize halfDraws_next w j t)
  have d: "drawTextOnArc (fixedWidth 0) (strokeThrows (plainSurface 0)) None [8203] 0 0
         (pi * 3 / 4) (28 / 25)
       = Some [FillText [8203] 0 0]"
    by (simp add: drawTextOnArc_def drawTextOnArcLayout_def sumWidth_def adjWidths_def
        fixedWidth_def)
  from halfDraws_useCurve s zero_width_layout r d show ?thesis by (intro conjI)
qed

section \<open>Outline and shadow\<close>

text \<open>
  Claim C5, as amended. The outline is black at alpha 0.45 when the average background
  lightness is above 55 and white at alpha 0.45 otherwise. The shadow is white at alpha 0.25
  when the average is below 55 and black at alpha 0.35 otherwise. So the shadow has the
  polarity of the outline whenever the average is not 55, and the opposite polarity when the
  average is exactly 55, where the outline is white and the shadow black. The alpha of the
  shadow lies in 0.25 to 0.35, below that of the outline, and its blur is 0.12 times the font
  size rounded to the nearest integer.
\<close>

theorem outline_and_shadow:
  "let P = fst (sampleParams rnd);
       avgL = avgLightness (bg P);
       outline = strokeStyle (style P);
       shadow = shadowColor (style P)
   in (avgL > 55 \<longrightarrow> outline = \<lparr>red = 0, green = 0, blue = 0, alpha = 0.45\<rparr>
                     \<and> shadow = \<lparr>red = 0, green = 0, blue = 0, alpha = 0.35\<rparr>)
    \<and> (avgL < 55 \<longrightarrow> outline = \<lparr>red = 255, green = 255, blue = 255, alpha = 0.45\<rparr>
                     \<and> shadow = \<lparr>red = 255, green = 255, blue = 255, alpha = 0.25\<rparr>)
    \<and> (avgL = 55 \<longrightarrow> outline = \<lparr>red = 255, green = 255, blue = 255, alpha = 0.45\<rparr>
                     \<and> shadow = \<lparr>red = 0, green = 0, blue = 0, alpha = 0.35\<rparr>)
    \<and> 0.25 \<le> alpha shadow \<and> alpha shadow \<le> 0.35 \<and> alpha shadow < alpha outline
    \<and> shadowBlur (style P) = js_round (0.12 * real_of_int (fontSize (style P)))"
  unfolding Let_def
  by (simp add: sampleParams_palette mult.commute)

theorem outline_and_shadow_witness:
  "avgLightness (bg (fst (sampleParams highDraws))) > 55
   \<and> strokeStyle (style (fst (sampleParams highDraws)))
       = \<lparr>red = 0, green = 0, blue = 0, alpha = 0.45\<rparr>
   \<and> shadowColor (style (fst (sampleParams highDraws)))
       = \<lparr>red = 0, green = 0, blue = 0, alpha = 0.35\<rparr>
   \<and> avgLightness (bg (fst (sampleParams halfDraws))) < 55
   \<and> strokeStyle (style (fst (sampleParams halfDraws)))
       = \<lparr>red = 255, green = 255, blue = 255, alpha = 0.45\<rparr>
   \<and> shadowColor (style (fst (sampleParams halfDraws)))
       = \<lparr>red = 255, green = 255, blue = 255, alpha = 0.25\<rparr>
   \<and> avgLightness (bg (fst (sampleParams edgeDraws))) = 55
   \<and> strokeStyle (style (fst (sampleParams edgeDraws)))
       = \<lparr>red = 255, green = 255, blue = 255, alpha = 0.45\<rparr>
   \<and> shadowColor (style (fst (sampleParams edgeDraws)))
       = \<lparr>red = 0, green = 0, blue = 0, alpha = 0.35\<rparr>"
proof -
  have h: "avgLightness (bg (fst (sampleParams highDraws))) > 55" by (simp add: highDraws_avgL)
  have l: "avgLightness (bg (fst (sampleParams halfDraws))) < 55" by (simp add: halfDraws_avgL)
  have e: "avgLightness (bg (fst (sampleParams edgeDraws))) = 55" by (rule edgeDraws_avgL)
  from outline_and_shadow [of highDraws] h
  have a: "strokeStyle (style (fst (sampleParams highDraws)))
       = \<lparr>red = 0, green = 0, blue = 0, alpha = 0.45\<rparr>"
    "shadowColor (style (fst (sampleParams highDraws)))
       = \<lparr>red = 0, green = 0, blue = 0, alpha = 0.35\<rparr>"
    unfolding Let_def by blast+
  from outline_and_shadow [of halfDraws] l
  have b: "strokeStyle (style (fst (sampleParams halfDraws)))
       = \<lparr>red = 255, green = 255, blue = 255, alpha = 0.45\<rparr>"
    "shadowColor (style (fst (sampleParams halfDraws)))
       = \<lparr>red = 255, green = 255, blue = 255, alpha = 0.25\<rparr>"
    unfolding Let_def by blast+
  from outline_and_shadow [of edgeDraws] e
  have c: "strokeStyle (style (fst (sampleParams edgeDraws)))
       = \<lparr>red = 255, green = 255, blue = 255, alpha = 0.45\<rparr>"
    "shadowColor (style (fst (sampleParams edgeDraws)))
       = \<lparr>red = 0, green = 0, blue = 0, alpha = 0.35\<rparr>"
    unfolding Let_def by blast+
  from h a l b e c show ?thesis by (intro conjI)
qed

text \<open>
  The claim as it was stated fails: in the run with every draw nine tenths the average
  background lightness is 57, the outline is black and the shadow is black as well; and in
  the run with every draw one half the font size is 126 and the blur is 15, not 15.12.
\<close>

theorem shadow_polarity_counterexample:
  "avgLightness (bg (fst (sampleParams highDraws))) = 57
   \<and> strokeStyle (style (fst (sampleParams highDraws)))
       = \<lparr>red = 0, green = 0, blue = 0, alpha = 0.45\<rparr>
   \<and> shadowColor (style (fst (sampleParams highDraws)))
       = \<lparr>red = 0, green = 0, blue = 0, alpha = 0.35\<rparr>
   \<and> fontSize (style (fst (sampleParams halfDraws))) = 126
   \<and> shadowBlur (style (fst (sampleParams halfDraws))) = 15
   \<and> (0.12 :: real) * 126 \<noteq> 15"
proof -
  have "avgLightness (fst (pickBgColors highDraws 0)) = 57"
    using highDraws_avgL by (simp only: sampleParams_palette(1))
  then show ?thesis
    by (simp add: highDraws_avgL halfDraws_fontSize sampleParams_palette(2,3,4) js_round_def)
qed

section \<open>Triggering a render\<close>

text \<open>
  Claim C9. When the prompt is empty or holds nothing but white space, \<^verbatim>\<open>generateImage\<close>
  returns at once: the state after the call is the state before it, so the canvas is not
  touched, \<open>loading\<close> is not set, \<open>imageUrl\<close> keeps its value and no timer is scheduled.
\<close>

theorem blank_prompt_ignored:
  assumes "\<forall>c\<in>set (prompt st). is_js_space c"
  shows "generateImage st = st
       \<and> canvas (generateImage st) = canvas st
       \<and> loading (generateImage st) = loading st
       \<and> imageUrl (generateImage st) = imageUrl st
       \<and> timers (generateImage st) = timers st"
proof -
  from assms have "trim (prompt st) = []" by (simp only: trim_blank_iff)
  then have "generateImage st = st" by (simp add: generateImage_def)
  then show ?thesis by simp
qed

theorem blank_prompt_ignored_witness:
  "list_all is_js_space [32, 9, 32]
   \<and> generateImage \<lparr>prompt = [32, 9, 32], imageUrl = None, loading = False, canvas = [],
                     consoleErrors = [], timers = []\<rparr>
       = \<lparr>prompt = [32, 9, 32], imageUrl = None, loading = False, canvas = [],
          consoleErrors = [], timers = []\<rparr>"
proof -
  have s: "list_all is_js_space [32, 9, 32]" by (simp add: is_js_space_def)
  then have h: "\<forall>c\<in>set (prompt \<lparr>prompt = [32, 9, 32], imageUrl = None, loading = False,
                       canvas = [], consoleErrors = [], timers = []\<rparr>). is_js_space c"
    by simp
  from blank_prompt_ignored [OF h] s show ?thesis by blast
qed

section \<open>Determinism\<close>

text \<open>
  Claim C10. A render is a function of the prompt, of the values that \<^verbatim>\<open>Math.random()\<close>
  returns and of the glyph measurements. A run reads at most 23 draws, so two runs on the
  same prompt whose first 23 draws agree, on surfaces that measure alike under the sampled
  font, have the same background colours, text colour stops, font, layout mode, arc
  placements and radius, and wrapped lines with their offsets; where the strokes also throw
  alike, the calls on the canvas and the state after the callback are the same too.
\<close>

theorem render_deterministic:
  assumes "unit_draws rnd" and "\<forall>k<23. rnd' k = rnd k"
    and "measureText sf' (fontFamily (style (fst (sampleParams rnd))))
           (fontSize (style (fst (sampleParams rnd))))
         = measureText sf (fontFamily (style (fst (sampleParams rnd))))
             (fontSize (style (fst (sampleParams rnd))))"
  shows "sampleParams rnd' = sampleParams rnd
       \<and> curveLayout sf' rnd' t = curveLayout sf rnd t
       \<and> straightLayout sf' rnd' t = straightLayout sf rnd t
       \<and> (strokeThrows sf' = strokeThrows sf \<longrightarrow>
            renderImage sf' rnd' t = renderImage sf rnd t
          \<and> timerCallback sf' rnd' t st = timerCallback sf rnd t st)"
  by (simp add: timerCallback_def sampleParams_cong [OF assms(1,2)]
      curveLayout_cong [OF assms] straightLayout_cong [OF assms] renderImage_cong [OF assms])

theorem render_deterministic_witness:
  "unit_draws halfDraws
   \<and> map halfThenZero [0, 1, 22] = map halfDraws [0, 1, 22]
   \<and> halfThenZero 23 \<noteq> halfDraws 23
   \<and> measureText (comicOnly 60) (fontFamily (style (fst (sampleParams halfDraws))))
           (fontSize (style (fst (sampleParams halfDraws))))
         = measureText (plainSurface 60) (fontFamily (style (fst (sampleParams halfDraws))))
             (fontSize (style (fst (sampleParams halfDraws))))
   \<and> strokeThrows (comicOnly 60) = strokeThrows (plainSurface 60)
   \<and> sampleParams halfThenZero = sampleParams halfDraws
   \<and> curveLayout (comicOnly 60) halfThenZero [72, 73]
       = curveLayout (plainSurface 60) halfDraws [72, 73]
   \<and> renderImage (comicOnly 60) halfThenZero [72, 73]
       = renderImage (plainSurface 60) halfDraws [72, 73]"
proof -
  have h: "\<forall>k<23. halfThenZero k = halfDraws k" by (simp add: halfThenZero_def halfDraws_def)
  have e: "map halfThenZero [0, 1, 22] = map halfDraws [0, 1, 22]"
    by (simp add: halfThenZero_def halfDraws_def)
  have d: "halfThenZero 23 \<noteq> halfDraws 23" by (simp add: halfThenZero_def halfDraws_def)
  have m: "measureText (comicOnly 60) (fontFamily (style (fst (sampleParams halfDraws))))
           (fontSize (style (fst (sampleParams halfDraws))))
         = measureText (plainSurface 60) (fontFamily (style (fst (sampleParams halfDraws))))
             (fontSize (style (fst (sampleParams halfDraws))))"
    by (simp add: halfDraws_fontFamily comicOnly_def plainSurface_def)
  have s: "strokeThrows (comicOnly 60) = strokeThrows (plainSurface 60)"
    by (simp add: comicOnly_def plainSurface_def)
  from render_deterministic [OF unit_halfDraws h m, of "[72, 73]"] s
  have "sampleParams halfThenZero = sampleParams halfDraws"
    "curveLayout (comicOnly 60) halfThenZero [72, 73]
       = curveLayout (plainSurface 60) halfDraws [72, 73]"
    "renderImage (comicOnly 60) halfThenZero [72, 73]
       = renderImage (plainSurface 60) halfDraws [72, 73]"
    by blast+
  with unit_halfDraws e d m s show ?thesis by (intro conjI)
qed

section \<open>Straight layout: the wrapped lines\<close>

text \<open>
  Claim C4, as amended. In straight mode every committed line either measures at most
  \<open>maxWidth\<close>, which is 0.8 times the canvas width of 1400, or is a single word of the prompt.
  The words of the committed lines, in order, are the words of the prompt with no non-empty
  word dropped, added or moved; they are the whole word sequence of the prompt whenever
  \<^verbatim>\<open>split(" ")\<close> yields no empty word, that is, whenever the prompt has no leading, trailing or
  doubled space.
\<close>

theorem straight_wrap:
  "let P = fst (sampleParams rnd);
       mw = measureText sf (fontFamily (style P)) (fontSize (style P));
       lines = map fst (straightLayout sf rnd t)
   in (\<forall>l\<in>set lines. mw l \<le> 1400 * 0.8 \<or> (l \<in> set (split_sp t) \<and> split_sp l = [l]))
    \<and> filter (\<lambda>w. w \<noteq> []) (concat (map split_sp lines))
        = filter (\<lambda>w. w \<noteq> []) (split_sp t)
    \<and> ([] \<notin> set (split_sp t) \<longrightarrow> concat (map split_sp lines) = split_sp t)"
proof -
  let ?mw = "measureText sf (fontFamily (style (fst (sampleParams rnd))))
               (fontSize (style (fst (sampleParams rnd))))"
  have a: "\<forall>l\<in>set (wrapLines ?mw 1120 t).
             ?mw l \<le> 1400 * 0.8 \<or> (l \<in> set (split_sp t) \<and> split_sp l = [l])"
  proof
    fix l assume "l \<in> set (wrapLines ?mw 1120 t)"
    from wrapLines_widths [OF this] show
      "?mw l \<le> 1400 * 0.8 \<or> (l \<in> set (split_sp t) \<and> split_sp l = [l])"
    proof
      assume "?mw l \<le> 1120"
      then show ?thesis by simp
    next
      assume w: "l \<in> set (split_sp t)"
      then have "split_sp l = [l]" by (intro split_sp_no_space split_sp_words_no_space)
      with w show ?thesis by blast
    qed
  qed
  have c: "[] \<notin> set (split_sp t) \<longrightarrow> concat (map split_sp (wrapLines ?mw 1120 t)) = split_sp t"
    using wrapLines_words by blast
  from a wrapLines_nonempty_words [of ?mw 1120 t] c show ?thesis
    unfolding Let_def straightLayout_lines by (intro conjI)
qed

theorem straight_wrap_witness:
  "[] \<notin> set (split_sp [65, 66, 32, 67, 68, 32, 69, 70])
   \<and> \<not> useCurve (fst (sampleParams quarterDraws))
   \<and> map fst (straightLayout (plainSurface 300) quarterDraws [65, 66, 32, 67, 68, 32, 69, 70])
       = [[65, 66], [67, 68], [69, 70]]
   \<and> list_all (\<lambda>l. fixedWidth 300 l \<le> 1400 * 0.8)
        (map fst (straightLayout (plainSurface 300) quarterDraws
                    [65, 66, 32, 67, 68, 32, 69, 70]))
   \<and> concat (map split_sp (map fst (straightLayout (plainSurface 300) quarterDraws
                                       [65, 66, 32, 67, 68, 32, 69, 70])))
       = split_sp [65, 66, 32, 67, 68, 32, 69, 70]"
proof -
  let ?t = "[65, 66, 32, 67, 68, 32, 69, 70] :: js_string"
  have h: "[] \<notin> set (split_sp ?t)" by simp
  have l: "map fst (straightLayout (plainSurface 300) quarterDraws ?t)
             = [[65, 66], [67, 68], [69, 70]]"
    by (simp add: plainSurface_lines wrapLines_def testLine_def fixedWidth_def)
  have w: "list_all (\<lambda>l. fixedWidth 300 l \<le> 1400 * 0.8)
             (map fst (straightLayout (plainSurface 300) quarterDraws ?t))"
    by (simp add: l fixedWidth_def)
  from straight_wrap [where sf = "plainSurface 300" and rnd = quarterDraws and t = ?t] h
  have "concat (map split_sp (map fst (straightLayout (plainSurface 300) quarterDraws ?t)))
          = split_sp ?t"
    unfolding Let_def by blast
  with h quarterDraws_straight l w show ?thesis by (intro conjI)
qed

text \<open>
  The claim as it was stated fails for a prompt with a leading space: its words are the empty
  string and \<open>a\<close>, the only committed line is \<open>a\<close>, and the empty word is gone.
\<close>

theorem leading_space_counterexample:
  "\<not> useCurve (fst (sampleParams quarterDraws))
   \<and> split_sp [32, 97] = [[], [97]]
   \<and> map fst (straightLayout (plainSurface 60) quarterDraws [32, 97]) = [[97]]
   \<and> concat (map split_sp (map fst (straightLayout (plainSurface 60) quarterDraws [32, 97])))
       = [[97]]"
  by (simp add: quarterDraws_straight plainSurface_lines wrapLines_def testLine_def
      fixedWidth_def)

section \<open>Failure of the stroke\<close>




end
